theory Spec2Isabelle
  imports Complex_Main
begin

section \<open>Mutation frequencies and heatmap selection (Leonard\_FigS10.ipynb)\<close>

text \<open>
  The notebook has two cells. The first, \<open>calculate_mutation_frequencies\<close>, reads a CSV
  file of sequences, counts per position the symbols that differ from a base sequence and
  writes a table of frequencies. The second, \<open>plot_mutation_heatmap_v6\<close>, reads that
  table, selects rows by position and draws them.

  Modelling decisions, all of them visible in the definitions below:
  \<^item> a Python \<open>str\<close> is a \<open>string\<close>; one \<open>char\<close> stands for one code point, so
    \<open>length\<close> is Python's \<open>len\<close>;
  \<^item> a CSV file is the list of rows that \<open>csv.reader\<close> yields for it (each row a list
    of cells), and the file system is a map from paths to such contents; opening a path
    for reading raises \<open>FileNotFoundError\<close> exactly when the map has no entry, opening
    for writing creates or truncates the entry;
  \<^item> \<open>print\<close> appends a message to the list of printed messages;
  \<^item> an exception is a value of type \<open>exn\<close>; the \<open>try\<close> block's handlers turn it
    into a printed message;
  \<^item> a Python \<open>float\<close> that is not negative is a mantissa and a binary exponent;
    \<open>int / int\<close> is the quotient rounded to the nearest binary64 value, ties to even.
\<close>

subsection \<open>Data model\<close>

type_synonym path = string
type_synonym csv_rows = "string list list"
type_synonym filesystem = "path \<rightharpoonup> csv_rows"

text \<open>
  The exceptions that can arise. A \<open>KeyError\<close> carries the keys that were not found:
  column names, or row labels of a table. \<open>OtherError\<close> stands for any other
  exception of class \<open>Exception\<close>.
\<close>

datatype keys = ColumnKeys "string list" | IndexKeys "int list"

datatype exn = FileNotFoundError | TypeError | KeyError keys | OtherError

text \<open>The messages the two functions print, one constructor per \<open>print\<close> call.\<close>

datatype message =
    ColumnNotFound path
  | IncorrectLength string
  | NoValidSequences
  | FrequenciesWritten path
  | InputNotFound path
  | UnexpectedError exn
  | HeatmapSaved path
  | PositionNotFound keys

text \<open>\<open>mutation_counts = defaultdict(lambda: defaultdict(int))\<close>: position, then symbol.\<close>

type_synonym counts = "nat \<rightharpoonup> (char \<rightharpoonup> nat)"

record tally =
  mutation_counts :: counts
  total_sequences :: nat

subsection \<open>\<open>csv.DictReader\<close>\<close>

text \<open>
  \<open>reader.fieldnames\<close> is the first row of the file, or \<open>None\<close> when the file has no
  row at all.
\<close>

definition fieldnames :: "csv_rows \<Rightarrow> string list option" where
  "fieldnames rows = (case rows of [] \<Rightarrow> None | names # _ \<Rightarrow> Some names)"

text \<open>
  The dictionary that \<open>DictReader\<close> builds for one row: \<open>dict(zip(fieldnames, row))\<close>,
  then every field name beyond the row's length is set to \<open>restval\<close>, which is \<open>None\<close>.
  A value is \<open>Some s\<close> for a cell and \<open>None\<close> for Python's \<open>None\<close>. (Cells beyond the
  field names go under the key \<open>None\<close>, which no string key reads; they are left out.)
\<close>

type_synonym row_dict = "string \<rightharpoonup> string option"

definition dict_row :: "string list \<Rightarrow> string list \<Rightarrow> row_dict" where
  "dict_row names row =
     (let d = fold (\<lambda>(k, v) d. d(k \<mapsto> Some v)) (zip names row) Map.empty
      in if length row < length names
         then fold (\<lambda>k d. d(k \<mapsto> None)) (drop (length row) names) d
         else d)"

text \<open>Iterating the reader: the rows after the first, the empty ones skipped.\<close>

definition dict_rows :: "csv_rows \<Rightarrow> row_dict list" where
  "dict_rows rows =
     (case rows of [] \<Rightarrow> [] | names # rest \<Rightarrow> map (dict_row names) (filter (\<lambda>r. r \<noteq> []) rest))"

subsection \<open>Counting\<close>

text \<open>\<open>mutation_counts[i][c] += 1\<close> on the nested \<open>defaultdict\<close>.\<close>

definition increment :: "counts \<Rightarrow> nat \<Rightarrow> char \<Rightarrow> counts" where
  "increment mc i c =
     (let inner = (case mc i of None \<Rightarrow> Map.empty | Some d \<Rightarrow> d)
      in mc(i \<mapsto> inner(c \<mapsto> (case inner c of None \<Rightarrow> 0 | Some n \<Rightarrow> n) + 1)))"

text \<open>\<open>mutation_counts[i].get(aa, 0)\<close>.\<close>

definition get_count :: "counts \<Rightarrow> nat \<Rightarrow> char \<Rightarrow> nat" where
  "get_count mc i aa =
     (case mc i of None \<Rightarrow> 0 | Some d \<Rightarrow> (case d aa of None \<Rightarrow> 0 | Some n \<Rightarrow> n))"

text \<open>
  The inner loop \<open>for i in range(sequence_length)\<close>, run only on a sequence whose length
  is \<open>sequence_length\<close>, so every index is in range.
\<close>

definition compare_sequence :: "string \<Rightarrow> string \<Rightarrow> counts \<Rightarrow> counts" where
  "compare_sequence base_sequence sequence mc =
     fold (\<lambda>i mc. if sequence ! i \<noteq> base_sequence ! i then increment mc i (sequence ! i) else mc)
       [0..<length base_sequence] mc"

text \<open>
  The loop \<open>for row in reader\<close>. \<open>row['sequence']\<close> raises \<open>KeyError\<close> on a missing
  key, and \<open>len(None)\<close> raises \<open>TypeError\<close>; the messages printed before stay printed.
\<close>

fun count_rows ::
  "string \<Rightarrow> row_dict list \<Rightarrow> tally \<Rightarrow> message list \<Rightarrow> (exn + tally) \<times> message list" where
  "count_rows base_sequence [] t out = (Inr t, out)"
| "count_rows base_sequence (row # rows) t out =
     (case row ''sequence'' of
        None \<Rightarrow> (Inl (KeyError (ColumnKeys [''sequence''])), out)
      | Some None \<Rightarrow> (Inl TypeError, out)
      | Some (Some sequence) \<Rightarrow>
          if length sequence \<noteq> length base_sequence
          then count_rows base_sequence rows t (out @ [IncorrectLength sequence])
          else count_rows base_sequence rows
                 \<lparr>mutation_counts = compare_sequence base_sequence sequence (mutation_counts t),
                  total_sequences = total_sequences t + 1\<rparr> out)"

subsection \<open>Floats and their formatting\<close>

text \<open>
  A non-negative binary floating-point number: \<open>Float m e\<close> is \<open>m * 2 ^ e\<close>.
\<close>

datatype pyfloat = Float nat int

fun float_value :: "pyfloat \<Rightarrow> rat" where
  "float_value (Float m e) =
     (if 0 \<le> e then of_nat m * 2 ^ nat e else of_nat m / 2 ^ nat (- e))"

text \<open>The nearest integer to \<open>a / b\<close>, ties to the even one (\<open>b \<noteq> 0\<close>).\<close>

definition round_half_even :: "nat \<Rightarrow> nat \<Rightarrow> nat" where
  "round_half_even a b =
     (let q = a div b; r = a mod b
      in if 2 * r < b then q else if b < 2 * r then q + 1 else if even q then q else q + 1)"

text \<open>Python's \<open>int.bit_length\<close>.\<close>

fun bit_length :: "nat \<Rightarrow> nat" where
  "bit_length n = (if n = 0 then 0 else Suc (bit_length (n div 2)))"

declare bit_length.simps [simp del]

text \<open>
  \<open>c / t\<close> on two non-negative integers with \<open>t \<noteq> 0\<close>: the quotient rounded to
  the nearest binary64 value, ties to even. With \<open>2 ^ e \<le> c / t < 2 ^ (e + 1)\<close> the
  result is a multiple of \<open>2 ^ (e - 52)\<close>, and of \<open>2 ^ (- 1074)\<close> in the subnormal
  range. The function is used on a count and the total only, where \<open>c \<le> t\<close>, so the
  quotient is at most 1 and \<open>OverflowError\<close> cannot arise; \<open>ZeroDivisionError\<close> is
  excluded by the guard on \<open>total_sequences\<close> before the table is written.
\<close>

definition exponent :: "nat \<Rightarrow> nat \<Rightarrow> int" where
  "exponent c t =
     (let d = int (bit_length c) - int (bit_length t)
      in if (if 0 \<le> d then t * 2 ^ nat d \<le> c else t \<le> c * 2 ^ nat (- d)) then d else d - 1)"

definition true_divide :: "nat \<Rightarrow> nat \<Rightarrow> pyfloat" where
  "true_divide c t =
     (if c = 0 then Float 0 0
      else let k = min (52 - exponent c t) 1074
           in if 0 \<le> k then Float (round_half_even (c * 2 ^ nat k) t) (- k)
              else Float (round_half_even c (t * 2 ^ nat (- k))) (- k))"

text \<open>\<open>str\<close> of a non-negative integer.\<close>

definition digit :: "nat \<Rightarrow> char" where
  "digit d = ''0123456789'' ! d"

fun str_nat :: "nat \<Rightarrow> string" where
  "str_nat n = (if n < 10 then [digit n] else str_nat (n div 10) @ [digit (n mod 10)])"

declare str_nat.simps [simp del]

text \<open>
  \<open>f"{frequency:.6f}"\<close> on a non-negative float: the value rounded to the nearest
  multiple of \<open>10 ^ (- 6)\<close>, ties to even, written with six digits after the point.
  \<open>millionths\<close> is that multiple as a number of millionths.
\<close>

fun millionths :: "pyfloat \<Rightarrow> nat" where
  "millionths (Float m e) =
     (if 0 \<le> e then m * 2 ^ nat e * 1000000 else round_half_even (m * 1000000) (2 ^ nat (- e)))"

definition six_digits :: "nat \<Rightarrow> string" where
  "six_digits m =
     [digit (m div 100000 mod 10), digit (m div 10000 mod 10), digit (m div 1000 mod 10),
      digit (m div 100 mod 10), digit (m div 10 mod 10), digit (m mod 10)]"

definition format_6f :: "pyfloat \<Rightarrow> string" where
  "format_6f x =
     (let n = millionths x in str_nat (n div 1000000) @ ''.'' @ six_digits (n mod 1000000))"

subsection \<open>Writing the table\<close>

definition amino_acids :: string where
  "amino_acids = ''ACDEFGHIKLMNPQRSTVWY''"

text \<open>The body of \<open>for i in range(sequence_length)\<close>: one written row.\<close>

definition frequency_row :: "tally \<Rightarrow> nat \<Rightarrow> string list" where
  "frequency_row t i =
     str_nat (i + 1) #
     map (\<lambda>aa. format_6f (true_divide (get_count (mutation_counts t) i aa) (total_sequences t)))
       amino_acids"

definition header :: "string list" where
  "header = ''Position'' # map (\<lambda>aa. [aa]) amino_acids"

definition frequency_table :: "string \<Rightarrow> tally \<Rightarrow> csv_rows" where
  "frequency_table base_sequence t =
     header # map (frequency_row t) [0..<length base_sequence]"

subsection \<open>\<open>calculate_mutation_frequencies\<close>\<close>

definition empty_tally :: tally where
  "empty_tally = \<lparr>mutation_counts = Map.empty, total_sequences = 0\<rparr>"

text \<open>
  The body of the \<open>try\<close> block: the exception that leaves it, if any, with the
  messages printed and the file system as they are at that moment.
\<close>

definition calculate_body ::
  "path \<Rightarrow> string \<Rightarrow> path \<Rightarrow> filesystem \<Rightarrow> exn option \<times> message list \<times> filesystem" where
  "calculate_body input_csv_file base_sequence output_csv_file fs =
     (case fs input_csv_file of
        None \<Rightarrow> (Some FileNotFoundError, [], fs)
      | Some rows \<Rightarrow>
          (case fieldnames rows of
             None \<Rightarrow> (Some TypeError, [], fs)
           | Some names \<Rightarrow>
               if ''sequence'' \<notin> set names then (None, [ColumnNotFound input_csv_file], fs)
               else
                 (case count_rows base_sequence (dict_rows rows) empty_tally [] of
                    (Inl e, out) \<Rightarrow> (Some e, out, fs)
                  | (Inr t, out) \<Rightarrow>
                      if total_sequences t = 0 then (None, out @ [NoValidSequences], fs)
                      else (None, out @ [FrequenciesWritten output_csv_file],
                            fs(output_csv_file \<mapsto> frequency_table base_sequence t)))))"

text \<open>The handlers, which both functions share word for word but for one.\<close>

fun handler :: "path \<Rightarrow> exn \<Rightarrow> message" where
  "handler input_csv_file FileNotFoundError = InputNotFound input_csv_file"
| "handler input_csv_file e = UnexpectedError e"

definition calculate_mutation_frequencies ::
  "path \<Rightarrow> string \<Rightarrow> path \<Rightarrow> filesystem \<Rightarrow> message list \<times> filesystem" where
  "calculate_mutation_frequencies input_csv_file base_sequence output_csv_file fs =
     (case calculate_body input_csv_file base_sequence output_csv_file fs of
        (None, out, fs') \<Rightarrow> (out, fs')
      | (Some e, out, fs') \<Rightarrow> (out @ [handler input_csv_file e], fs'))"

subsection \<open>\<open>plot_mutation_heatmap_v6\<close>\<close>

text \<open>
  A pandas \<open>DataFrame\<close> with numeric cells: the row labels, the column names and the
  rows. \<open>pd.read_csv\<close> is a parameter of the model: it yields the frame for a path, or
  the exception it raises there (\<open>FileNotFoundError\<close> for a missing file).
\<close>

record dataframe =
  index :: "rat list"
  columns :: "string list"
  cells :: "rat list list"

definition remove_nth :: "nat \<Rightarrow> 'a list \<Rightarrow> 'a list" where
  "remove_nth j xs = take j xs @ drop (Suc j) xs"

text \<open>
  \<open>df.set_index(name)\<close>: the column becomes the row labels; a name that is no column
  raises \<open>KeyError\<close>.
\<close>

definition set_index :: "string \<Rightarrow> dataframe \<Rightarrow> exn + dataframe" where
  "set_index name df =
     (if name \<notin> set (columns df) then Inl (KeyError (ColumnKeys [name]))
      else let j = length (takeWhile (\<lambda>c. c \<noteq> name) (columns df))
           in Inr \<lparr>index = map (\<lambda>r. r ! j) (cells df),
                    columns = remove_nth j (columns df),
                    cells = map (remove_nth j) (cells df)\<rparr>)"

text \<open>The first occurrences, in order: \<open>Index.unique()\<close>.\<close>

definition unique :: "'a list \<Rightarrow> 'a list" where
  "unique xs = rev (remdups (rev xs))"

text \<open>
  \<open>df.loc[labels]\<close> with a list of labels: the rows that carry each label, in the order
  of the list. When a label is no row label, pandas raises \<open>KeyError\<close>: with all the
  requested labels when none of them was found, with the missing ones otherwise.
\<close>

definition loc :: "int list \<Rightarrow> dataframe \<Rightarrow> exn + dataframe" where
  "loc labels df =
     (let missing = filter (\<lambda>p. of_int p \<notin> set (index df)) labels
      in if missing = []
         then Inr \<lparr>index = concat (map (\<lambda>p. filter (\<lambda>l. l = of_int p) (index df)) labels),
                   columns = columns df,
                   cells = concat (map (\<lambda>p. map snd (filter (\<lambda>(l, r). l = of_int p)
                                                     (zip (index df) (cells df)))) labels)\<rparr>
         else if length missing = length labels then Inl (KeyError (IndexKeys labels))
         else Inl (KeyError (IndexKeys (unique missing))))"

text \<open>
  The body of the \<open>try\<close> block. Everything from the colour map to \<open>savefig\<close> is the
  parameter \<open>draw\<close>: it yields the image for the selected frame, or the exception that
  matplotlib or pandas raises on the way.
\<close>

type_synonym highlight = "int \<rightharpoonup> string list"

definition plot_body ::
  "(path \<Rightarrow> exn + dataframe) \<Rightarrow> (dataframe \<Rightarrow> int list \<Rightarrow> highlight \<Rightarrow> exn + 'img) \<Rightarrow>
   path \<Rightarrow> int list \<Rightarrow> highlight \<Rightarrow> exn + 'img" where
  "plot_body read_csv draw input_csv_file positions_to_plot highlight_cells =
     (case read_csv input_csv_file of
        Inl e \<Rightarrow> Inl e
      | Inr df \<Rightarrow>
          (case set_index ''Position'' df of
             Inl e \<Rightarrow> Inl e
           | Inr df \<Rightarrow>
               (case loc positions_to_plot df of
                  Inl e \<Rightarrow> Inl e
                | Inr df_selected \<Rightarrow> draw df_selected positions_to_plot highlight_cells)))"

fun plot_handler :: "path \<Rightarrow> exn \<Rightarrow> message" where
  "plot_handler input_csv_file FileNotFoundError = InputNotFound input_csv_file"
| "plot_handler input_csv_file (KeyError e) = PositionNotFound e"
| "plot_handler input_csv_file e = UnexpectedError e"

definition plot_mutation_heatmap_v6 ::
  "(path \<Rightarrow> exn + dataframe) \<Rightarrow> (dataframe \<Rightarrow> int list \<Rightarrow> highlight \<Rightarrow> exn + 'img) \<Rightarrow>
   path \<Rightarrow> int list \<Rightarrow> highlight \<Rightarrow> path \<Rightarrow> (path \<rightharpoonup> 'img) \<Rightarrow>
   message list \<times> (path \<rightharpoonup> 'img)" where
  "plot_mutation_heatmap_v6 read_csv draw input_csv_file positions_to_plot highlight_cells
     output_filename images =
     (case plot_body read_csv draw input_csv_file positions_to_plot highlight_cells of
        Inr img \<Rightarrow> ([HeatmapSaved output_filename], images(output_filename \<mapsto> img))
      | Inl e \<Rightarrow> ([plot_handler input_csv_file e], images))"

subsection \<open>Notions the properties are stated with\<close>

text \<open>
  The sequence of a record that has one, and the list of sequences of a file whose
  first row names a \<open>sequence\<close> column and whose records all have a cell in it.
\<close>

definition sequence_cell :: "row_dict \<Rightarrow> string option" where
  "sequence_cell d = (case d ''sequence'' of Some (Some s) \<Rightarrow> Some s | _ \<Rightarrow> None)"

definition sequence_column :: "csv_rows \<Rightarrow> string list option" where
  "sequence_column rows =
     (case fieldnames rows of
        None \<Rightarrow> None
      | Some names \<Rightarrow>
          if ''sequence'' \<notin> set names then None
          else those (map sequence_cell (dict_rows rows)))"

text \<open>The sequences of the reference's length, and the others.\<close>

definition valid :: "string \<Rightarrow> string list \<Rightarrow> string list" where
  "valid base_sequence seqs = filter (\<lambda>s. length s = length base_sequence) seqs"

definition skipped :: "string \<Rightarrow> string list \<Rightarrow> string list" where
  "skipped base_sequence seqs = filter (\<lambda>s. length s \<noteq> length base_sequence) seqs"

text \<open>
  The number of valid sequences whose symbol at index \<open>i\<close> differs from the reference's
  and is \<open>x\<close>; the number of those whose symbol differs at all.
\<close>

definition mismatches :: "string \<Rightarrow> string list \<Rightarrow> nat \<Rightarrow> char \<Rightarrow> nat" where
  "mismatches base_sequence seqs i x =
     length (filter (\<lambda>s. s ! i \<noteq> base_sequence ! i \<and> s ! i = x) (valid base_sequence seqs))"

definition differing :: "string \<Rightarrow> string list \<Rightarrow> nat \<Rightarrow> nat" where
  "differing base_sequence seqs i =
     length (filter (\<lambda>s. s ! i \<noteq> base_sequence ! i) (valid base_sequence seqs))"

definition differing_canonical :: "string \<Rightarrow> string list \<Rightarrow> nat \<Rightarrow> nat" where
  "differing_canonical base_sequence seqs i =
     length (filter (\<lambda>s. s ! i \<noteq> base_sequence ! i \<and> s ! i \<in> set amino_acids)
        (valid base_sequence seqs))"

text \<open>The written row for index \<open>i\<close>, in terms of the sequences of the file.\<close>

definition table_row :: "string \<Rightarrow> string list \<Rightarrow> nat \<Rightarrow> string list" where
  "table_row base_sequence seqs i =
     str_nat (i + 1) #
     map (\<lambda>aa. format_6f (true_divide (mismatches base_sequence seqs i aa)
                        (length (valid base_sequence seqs))))
       amino_acids"

text \<open>
  The number that a written cell denotes: the digits before the point, plus the digits
  after it over the matching power of ten.
\<close>

definition digit_value :: "char \<Rightarrow> nat" where
  "digit_value c = length (takeWhile (\<lambda>d. d \<noteq> c) ''0123456789'')"

definition nat_of_digits :: "string \<Rightarrow> nat" where
  "nat_of_digits s = foldl (\<lambda>n c. 10 * n + digit_value c) 0 s"

definition decimal_value :: "string \<Rightarrow> rat" where
  "decimal_value s =
     (let whole = takeWhile (\<lambda>c. c \<noteq> CHR ''.'') s;
          fraction = drop 1 (dropWhile (\<lambda>c. c \<noteq> CHR ''.'') s)
      in of_nat (nat_of_digits whole) + of_nat (nat_of_digits fraction) / 10 ^ length fraction)"

text \<open>A file with the single column \<open>sequence\<close>, one record per sequence.\<close>

definition sequence_file :: "string list \<Rightarrow> csv_rows" where
  "sequence_file seqs = [''sequence''] # map (\<lambda>s. [s]) seqs"

text \<open>
  The binary scale of the quotient of a count by the total: the quotient is rounded to a
  multiple of \<open>2 ^ (- scale c t)\<close>.
\<close>

definition scale :: "nat \<Rightarrow> nat \<Rightarrow> nat" where
  "scale c t = nat (min (52 - exponent c t) 1074)"

section \<open>Properties\<close>

subsection \<open>Counting\<close>

lemma get_count_increment:
  "get_count (increment mc j c) i x = get_count mc i x + (if i = j \<and> x = c then 1 else 0)"
  by (auto simp: get_count_def increment_def Let_def split: option.splits)

lemma get_count_fold_upt:
  "get_count (fold (\<lambda>i mc. if s ! i \<noteq> b ! i then increment mc i (s ! i) else mc) [0..<n] mc) i x =
     get_count mc i x + (if i < n \<and> s ! i \<noteq> b ! i \<and> s ! i = x then 1 else 0)"
proof (induction n)
  case 0
  show ?case by simp
next
  case (Suc n)
  show ?case
    by (auto simp: Suc get_count_increment less_Suc_eq)
qed

lemma get_count_compare_sequence:
  "get_count (compare_sequence base_sequence sequence mc) i x =
     get_count mc i x +
     (if i < length base_sequence \<and> sequence ! i \<noteq> base_sequence ! i \<and> sequence ! i = x
      then 1 else 0)"
  unfolding compare_sequence_def by (rule get_count_fold_upt)

lemma get_count_empty: "get_count Map.empty i x = 0"
  by (simp add: get_count_def)

text \<open>
  The loop over the records, when every record has a sequence: no exception, one warning
  per skipped sequence, and the tally of the valid ones.
\<close>

lemma count_rows_sequences:
  assumes "those (map sequence_cell rows) = Some seqs"
  shows "\<exists>t'. count_rows base_sequence rows t out =
            (Inr t', out @ map IncorrectLength (skipped base_sequence seqs)) \<and>
          total_sequences t' = total_sequences t + length (valid base_sequence seqs) \<and>
          (\<forall>i x. get_count (mutation_counts t') i x =
             get_count (mutation_counts t) i x +
             (if i < length base_sequence then mismatches base_sequence seqs i x else 0))"
  using assms
proof (induction rows arbitrary: t out seqs)
  case Nil
  then show ?case by (simp add: skipped_def valid_def mismatches_def)
next
  case (Cons row rows)
  from Cons.prems obtain s rest where
    cell: "sequence_cell row = Some s" and rest: "those (map sequence_cell rows) = Some rest"
    and seqs: "seqs = s # rest"
    by (auto split: option.splits)
  from cell have row: "row ''sequence'' = Some (Some s)"
    by (auto simp: sequence_cell_def split: option.splits)
  show ?case
  proof (cases "length s = length base_sequence")
    case True
    let ?t = "\<lparr>mutation_counts = compare_sequence base_sequence s (mutation_counts t),
               total_sequences = total_sequences t + 1\<rparr>"
    from Cons.IH [OF rest, of ?t out] obtain t' where
      run: "count_rows base_sequence rows ?t out =
              (Inr t', out @ map IncorrectLength (skipped base_sequence rest))"
      and tot: "total_sequences t' = total_sequences ?t + length (valid base_sequence rest)"
      and cnt: "\<And>i x. get_count (mutation_counts t') i x =
             get_count (mutation_counts ?t) i x +
             (if i < length base_sequence then mismatches base_sequence rest i x else 0)"
      by blast
    have "count_rows base_sequence (row # rows) t out =
            (Inr t', out @ map IncorrectLength (skipped base_sequence seqs))"
      using run row True by (simp add: seqs skipped_def)
    moreover have "total_sequences t' = total_sequences t + length (valid base_sequence seqs)"
      using tot True by (simp add: seqs valid_def)
    moreover have "\<forall>i x. get_count (mutation_counts t') i x =
             get_count (mutation_counts t) i x +
             (if i < length base_sequence then mismatches base_sequence seqs i x else 0)"
      using True by (auto simp: cnt get_count_compare_sequence seqs mismatches_def valid_def)
    ultimately show ?thesis by blast
  next
    case False
    from Cons.IH [OF rest, of t "out @ [IncorrectLength s]"] obtain t' where
      run: "count_rows base_sequence rows t (out @ [IncorrectLength s]) =
              (Inr t', (out @ [IncorrectLength s]) @ map IncorrectLength (skipped base_sequence rest))"
      and tot: "total_sequences t' = total_sequences t + length (valid base_sequence rest)"
      and cnt: "\<And>i x. get_count (mutation_counts t') i x =
             get_count (mutation_counts t) i x +
             (if i < length base_sequence then mismatches base_sequence rest i x else 0)"
      by blast
    have "count_rows base_sequence (row # rows) t out =
            (Inr t', out @ map IncorrectLength (skipped base_sequence seqs))"
      using run row False by (simp add: seqs skipped_def)
    moreover have "total_sequences t' = total_sequences t + length (valid base_sequence seqs)"
      using tot False by (simp add: seqs valid_def)
    moreover have "\<forall>i x. get_count (mutation_counts t') i x =
             get_count (mutation_counts t) i x +
             (if i < length base_sequence then mismatches base_sequence seqs i x else 0)"
      using False by (auto simp: cnt seqs mismatches_def valid_def)
    ultimately show ?thesis by blast
  qed
qed

lemma count_rows_file:
  assumes "sequence_column rows = Some seqs"
  shows "\<exists>t. count_rows base_sequence (dict_rows rows) empty_tally [] =
            (Inr t, map IncorrectLength (skipped base_sequence seqs)) \<and>
          total_sequences t = length (valid base_sequence seqs) \<and>
          (\<forall>i x. i < length base_sequence \<longrightarrow>
             get_count (mutation_counts t) i x = mismatches base_sequence seqs i x)"
proof -
  from assms have cells: "those (map sequence_cell (dict_rows rows)) = Some seqs"
    by (auto simp: sequence_column_def split: option.splits if_splits)
  from count_rows_sequences [OF cells, of base_sequence empty_tally "[]"] show ?thesis
    by (auto simp: empty_tally_def get_count_empty)
qed

lemma frequency_table_rows:
  assumes tot: "total_sequences t = length (valid base_sequence seqs)"
    and cnt: "\<And>i x. i < length base_sequence \<Longrightarrow>
                get_count (mutation_counts t) i x = mismatches base_sequence seqs i x"
  shows "frequency_table base_sequence t =
           header # map (table_row base_sequence seqs) [0..<length base_sequence]"
  by (simp add: frequency_table_def frequency_row_def table_row_def tot cnt)

text \<open>The whole run on a file whose records all have a sequence.\<close>

lemma calculate_on_sequences:
  assumes inp: "fs input_csv_file = Some rows"
    and col: "sequence_column rows = Some seqs"
  shows "calculate_mutation_frequencies input_csv_file base_sequence output_csv_file fs =
           (if valid base_sequence seqs = []
            then (map IncorrectLength (skipped base_sequence seqs) @ [NoValidSequences], fs)
            else (map IncorrectLength (skipped base_sequence seqs) @
                    [FrequenciesWritten output_csv_file],
                  fs(output_csv_file \<mapsto>
                     header # map (table_row base_sequence seqs) [0..<length base_sequence])))"
proof -
  from col obtain names where names: "fieldnames rows = Some names"
    and has: "''sequence'' \<in> set names"
    by (auto simp: sequence_column_def split: option.splits if_splits)
  from count_rows_file [OF col, of base_sequence] obtain t where
    run: "count_rows base_sequence (dict_rows rows) empty_tally [] =
            (Inr t, map IncorrectLength (skipped base_sequence seqs))"
    and tot: "total_sequences t = length (valid base_sequence seqs)"
    and cnt: "\<And>i x. i < length base_sequence \<Longrightarrow>
                get_count (mutation_counts t) i x = mismatches base_sequence seqs i x"
    by blast
  show ?thesis
    by (simp add: calculate_mutation_frequencies_def calculate_body_def inp names has run tot
        frequency_table_rows [OF tot cnt])
qed

subsection \<open>Rounding\<close>

lemma round_half_even_zero: "round_half_even 0 b = 0"
  by (simp add: round_half_even_def)

lemma round_half_even_le:
  assumes b: "0 < b" and le: "a \<le> n * b"
  shows "round_half_even a b \<le> n"
proof -
  have a: "a = a div b * b + a mod b" by simp
  have r: "a mod b < b" using b by simp
  have q: "a div b \<le> n"
  proof -
    have "a div b * b \<le> n * b" using a le by linarith
    then show ?thesis using b by simp
  qed
  have strict: "a div b < n" if "a mod b \<noteq> 0"
  proof (rule ccontr)
    assume "\<not> a div b < n"
    with q have "a div b = n" by simp
    with a le that show False by simp
  qed
  show ?thesis
    using q strict b by (auto simp: round_half_even_def Let_def)
qed

lemma round_half_even_near:
  assumes b: "0 < b"
  shows "2 * (round_half_even a b * b) \<le> 2 * a + b \<and> 2 * a \<le> 2 * (round_half_even a b * b) + b"
proof -
  have a: "a = a div b * b + a mod b" by simp
  define q where "q = a div b"
  define r where "r = a mod b"
  have a': "a = q * b + r" using a by (simp add: q_def r_def)
  have r: "r < b" using b by (simp add: r_def)
  have rhe: "round_half_even a b = (if 2 * r < b then q else if b < 2 * r then q + 1 else if even q then q else q + 1)"
    by (simp add: round_half_even_def Let_def q_def r_def)
  show ?thesis
    unfolding rhe using r a' by (auto simp: algebra_simps)
qed

lemma bit_length_mono: "m \<le> n \<Longrightarrow> bit_length m \<le> bit_length n"
proof (induction n arbitrary: m rule: bit_length.induct)
  case (1 n)
  show ?case
  proof (cases "m = 0")
    case True
    then show ?thesis by (simp add: bit_length.simps)
  next
    case False
    with "1.prems" have n: "n \<noteq> 0" by simp
    have "m div 2 \<le> n div 2" using "1.prems" by (rule div_le_mono)
    from "1.IH" [OF n this] show ?thesis
      using False n by (simp add: bit_length.simps [of m] bit_length.simps [of n])
  qed
qed

lemma exponent_le_zero:
  assumes "c \<le> t"
  shows "exponent c t \<le> 0"
  using bit_length_mono [OF assms] by (simp add: exponent_def Let_def)

lemma scale_bounds: "c \<le> t \<Longrightarrow> 52 \<le> scale c t \<and> scale c t \<le> 1074"
  using exponent_le_zero [of c t] by (auto simp: scale_def min_def)

lemma true_divide_scale:
  assumes "0 < c" "c \<le> t"
  shows "true_divide c t = Float (round_half_even (c * 2 ^ scale c t) t) (- int (scale c t))"
  using assms exponent_le_zero [of c t] by (simp add: true_divide_def scale_def Let_def)

lemma millionths_le:
  assumes "0 < t" "c \<le> t"
  shows "millionths (true_divide c t) \<le> 1000000"
proof (cases "c = 0")
  case True
  then show ?thesis by (simp add: true_divide_def)
next
  case False
  define k where "k = scale c t"
  have k: "52 \<le> k" using scale_bounds [OF assms(2)] by (simp add: k_def)
  have td: "true_divide c t = Float (round_half_even (c * 2 ^ k) t) (- int k)"
    using true_divide_scale [of c t] False assms by (simp add: k_def)
  have m: "round_half_even (c * 2 ^ k) t \<le> 2 ^ k"
    by (rule round_half_even_le) (use assms in simp_all)
  have "round_half_even (round_half_even (c * 2 ^ k) t * 1000000) (2 ^ k) \<le> 1000000"
    by (rule round_half_even_le) (use m in simp_all)
  then show ?thesis using k by (simp add: td)
qed

subsection \<open>Written cells read back\<close>

lemma digit_cases: "d < 10 \<Longrightarrow> d \<in> {0, 1, 2, 3, 4, 5, 6, 7, 8, 9::nat}"
  by auto

lemma digit_value_digit: "d < 10 \<Longrightarrow> digit_value (digit d) = d"
  by (drule digit_cases) (auto simp: digit_value_def digit_def)

lemma digit_not_point: "d < 10 \<Longrightarrow> digit d \<noteq> CHR ''.''"
  by (drule digit_cases) (auto simp: digit_def)

lemma nat_of_digits_snoc: "nat_of_digits (s @ [c]) = 10 * nat_of_digits s + digit_value c"
  by (simp add: nat_of_digits_def)

lemma nat_of_digits_str_nat: "nat_of_digits (str_nat n) = n"
proof (induction n rule: str_nat.induct)
  case (1 n)
  show ?case
  proof (cases "n < 10")
    case True
    then show ?thesis by (simp add: str_nat.simps [of n] nat_of_digits_def digit_value_digit)
  next
    case False
    with "1.IH" show ?thesis
      by (simp add: str_nat.simps [of n] nat_of_digits_snoc digit_value_digit)
  qed
qed

lemma point_notin_str_nat: "CHR ''.'' \<notin> set (str_nat n)"
proof (induction n rule: str_nat.induct)
  case (1 n)
  show ?case
  proof (cases "n < 10")
    case True
    then show ?thesis using digit_not_point [of n] by (simp add: str_nat.simps [of n])
  next
    case False
    with "1.IH" show ?thesis
      using digit_not_point [of "n mod 10"] by (simp add: str_nat.simps [of n])
  qed
qed

lemma nat_of_digits_six_digits:
  assumes "m < 1000000"
  shows "nat_of_digits (six_digits m) = m"
proof -
  define a1 where "a1 = m div 10"
  define a2 where "a2 = a1 div 10"
  define a3 where "a3 = a2 div 10"
  define a4 where "a4 = a3 div 10"
  define a5 where "a5 = a4 div 10"
  have d2: "m div 100 = a2" by (simp add: a2_def a1_def div_mult2_eq)
  have d3: "m div 1000 = a3" by (simp add: a3_def a2_def a1_def div_mult2_eq)
  have d4: "m div 10000 = a4" by (simp add: a4_def a3_def a2_def a1_def div_mult2_eq)
  have d5: "m div 100000 = a5" by (simp add: a5_def a4_def a3_def a2_def a1_def div_mult2_eq)
  have small: "a5 < 10" using assms unfolding d5 [symmetric] by simp
  have e5: "10 * a5 + a4 mod 10 = a4" by (simp add: a5_def)
  have e4: "10 * a4 + a3 mod 10 = a3" by (simp add: a4_def)
  have e3: "10 * a3 + a2 mod 10 = a2" by (simp add: a3_def)
  have e2: "10 * a2 + a1 mod 10 = a1" by (simp add: a2_def)
  have e1: "10 * a1 + m mod 10 = m" by (simp add: a1_def)
  have "nat_of_digits (six_digits m) =
          10 * (10 * (10 * (10 * (10 * (a5 mod 10) + a4 mod 10)
            + a3 mod 10) + a2 mod 10) + a1 mod 10) + m mod 10"
    by (simp add: nat_of_digits_def six_digits_def digit_value_digit d2 d3 d4 d5 a1_def [symmetric])
  also have "\<dots> = m" using small by (simp add: e5 e4 e3 e2 e1)
  finally show ?thesis .
qed

lemma takeWhile_upto: "c \<notin> set xs \<Longrightarrow> takeWhile (\<lambda>x. x \<noteq> c) (xs @ c # ys) = xs"
  by (induction xs) auto

lemma dropWhile_upto: "c \<notin> set xs \<Longrightarrow> dropWhile (\<lambda>x. x \<noteq> c) (xs @ c # ys) = c # ys"
  by (induction xs) auto

lemma length_six_digits: "length (six_digits m) = 6"
  by (simp add: six_digits_def)

lemma decimal_value_format_6f: "decimal_value (format_6f x) = of_nat (millionths x) / 1000000"
proof -
  define n where "n = millionths x"
  have tw: "takeWhile (\<lambda>c. c \<noteq> CHR ''.'') (str_nat (n div 1000000) @ ''.'' @ six_digits (n mod 1000000))
              = str_nat (n div 1000000)"
    using point_notin_str_nat [of "n div 1000000"] by (simp add: takeWhile_upto)
  have dw: "dropWhile (\<lambda>c. c \<noteq> CHR ''.'') (str_nat (n div 1000000) @ ''.'' @ six_digits (n mod 1000000))
              = ''.'' @ six_digits (n mod 1000000)"
    using point_notin_str_nat [of "n div 1000000"] by (simp add: dropWhile_upto)
  have "decimal_value (format_6f x) =
          of_nat (n div 1000000) + of_nat (n mod 1000000) / 1000000"
    unfolding decimal_value_def format_6f_def Let_def n_def [symmetric] tw dw
    by (simp add: nat_of_digits_str_nat nat_of_digits_six_digits length_six_digits)
  also have "\<dots> = of_nat n / 1000000"
  proof -
    have "(of_nat n :: rat) = of_nat (n div 1000000 * 1000000 + n mod 1000000)" by simp
    also have "\<dots> = of_nat (n div 1000000) * 1000000 + of_nat (n mod 1000000)"
      by (simp only: of_nat_add of_nat_mult of_nat_numeral)
    finally show ?thesis by (simp add: field_simps)
  qed
  finally show ?thesis by (simp add: n_def)
qed

subsection \<open>How far a written cell is from the exact quotient\<close>

lemma round_half_even_error:
  assumes b: "0 < b"
  shows "\<bar>(of_nat (round_half_even a b) :: rat) - of_nat a / of_nat b\<bar> \<le> 1 / 2"
proof -
  define q where "q = round_half_even a b"
  from round_half_even_near [OF b, of a]
  have n1: "2 * (q * b) \<le> 2 * a + b" and n2: "2 * a \<le> 2 * (q * b) + b"
    by (simp_all add: q_def)
  have r1: "2 * ((of_nat q :: rat) * of_nat b) \<le> 2 * of_nat a + of_nat b"
    using n1 by (metis of_nat_add of_nat_le_iff of_nat_mult of_nat_numeral)
  have r2: "2 * (of_nat a :: rat) \<le> 2 * (of_nat q * of_nat b) + of_nat b"
    using n2 by (metis of_nat_add of_nat_le_iff of_nat_mult of_nat_numeral)
  have pos: "(0 :: rat) < of_nat b" using b by simp
  have "(of_nat q :: rat) - of_nat a / of_nat b \<le> 1 / 2"
    using r1 pos by (simp add: field_simps)
  moreover have "- (1 / 2) \<le> (of_nat q :: rat) - of_nat a / of_nat b"
    using r2 pos by (simp add: field_simps)
  ultimately show ?thesis unfolding q_def by linarith
qed

lemma millionths_error:
  "\<bar>of_nat (millionths x) / 1000000 - float_value x\<bar> \<le> 1 / 2000000"
proof (cases x)
  case (Float m e)
  show ?thesis
  proof (cases "0 \<le> e")
    case True
    then show ?thesis by (simp add: Float)
  next
    case False
    define k where "k = nat (- e)"
    have "\<bar>(of_nat (round_half_even (m * 1000000) (2 ^ k)) :: rat) - of_nat (m * 1000000) / of_nat (2 ^ k)\<bar> \<le> 1 / 2"
      by (rule round_half_even_error) simp
    then have "\<bar>(of_nat (round_half_even (m * 1000000) (2 ^ k)) :: rat) / 1000000 - of_nat m / 2 ^ k\<bar> \<le> 1 / 2000000"
      by (simp add: field_simps abs_le_iff)
    then show ?thesis using False by (simp add: Float k_def)
  qed
qed

lemma true_divide_error:
  assumes "0 < t" "c \<le> t"
  shows "\<bar>float_value (true_divide c t) - of_nat c / of_nat t\<bar> \<le> 1 / 2 ^ 53"
proof (cases "c = 0")
  case True
  then show ?thesis by (simp add: true_divide_def)
next
  case False
  define k where "k = scale c t"
  have k: "52 \<le> k" using scale_bounds [OF assms(2)] by (simp add: k_def)
  have td: "true_divide c t = Float (round_half_even (c * 2 ^ k) t) (- int k)"
    using true_divide_scale [of c t] False assms by (simp add: k_def)
  have fv: "float_value (true_divide c t) = of_nat (round_half_even (c * 2 ^ k) t) / 2 ^ k"
    using k by (simp add: td)
  have "\<bar>(of_nat (round_half_even (c * 2 ^ k) t) :: rat) - of_nat (c * 2 ^ k) / of_nat t\<bar> \<le> 1 / 2"
    by (rule round_half_even_error) (rule assms)
  then have "\<bar>(of_nat (round_half_even (c * 2 ^ k) t) :: rat) / 2 ^ k - of_nat c / of_nat t\<bar> \<le> 1 / (2 * 2 ^ k)"
    by (simp add: field_simps abs_le_iff)
  also have "(1 :: rat) / (2 * 2 ^ k) \<le> 1 / 2 ^ 53"
  proof -
    have "(2 :: rat) ^ 53 \<le> 2 ^ Suc k" using k by (intro power_increasing) simp_all
    then show ?thesis by (simp add: frac_le)
  qed
  finally show ?thesis by (simp add: fv)
qed

lemma written_error:
  assumes "0 < t" "c \<le> t"
  shows "\<bar>decimal_value (format_6f (true_divide c t)) - of_nat c / of_nat t\<bar> < 1 / 1000000"
proof -
  have "\<bar>decimal_value (format_6f (true_divide c t)) - of_nat c / of_nat t\<bar>
          \<le> \<bar>of_nat (millionths (true_divide c t)) / 1000000 - float_value (true_divide c t)\<bar>
            + \<bar>float_value (true_divide c t) - of_nat c / of_nat t\<bar>"
    unfolding decimal_value_format_6f by linarith
  also have "\<dots> \<le> 1 / 2000000 + 1 / 2 ^ 53"
    by (intro add_mono millionths_error true_divide_error assms)
  also have "\<dots> < 1 / 1000000" by simp
  finally show ?thesis .
qed

subsection \<open>Files of sequences\<close>

lemma dict_row_single: "dict_row [''sequence''] [s] = [''sequence'' \<mapsto> Some s]"
  by (simp add: dict_row_def)

lemma those_map_Some: "those (map Some xs) = Some xs"
  by (induction xs) simp_all

lemma sequence_column_sequence_file: "sequence_column (sequence_file seqs) = Some seqs"
proof -
  have cells: "map sequence_cell (dict_rows (sequence_file seqs)) = map Some seqs"
    by (simp add: sequence_file_def dict_rows_def dict_row_single sequence_cell_def comp_def)
  have names: "fieldnames (sequence_file seqs) = Some [''sequence'']"
    by (simp add: sequence_file_def fieldnames_def)
  show ?thesis
    unfolding sequence_column_def by (simp add: names cells those_map_Some)
qed


subsection \<open>Runs that write the table\<close>

text \<open>
  The loop prints warnings only, and it ends without an exception only when every record
  has a sequence.
\<close>

lemma count_rows_prints:
  "count_rows base_sequence rows t out = (r, out') \<Longrightarrow>
     \<exists>ws. out' = out @ map IncorrectLength ws"
proof (induction rows arbitrary: t out)
  case Nil
  then show ?case by simp
next
  case (Cons row rows)
  show ?case
  proof (cases "row ''sequence''")
    case None
    with Cons.prems show ?thesis by simp
  next
    case (Some v)
    show ?thesis
    proof (cases v)
      case None
      with Some Cons.prems show ?thesis by simp
    next
      case (Some s)
      show ?thesis
      proof (cases "length s = length base_sequence")
        case True
        with Cons.prems \<open>row ''sequence'' = Some v\<close> Some Cons.IH show ?thesis by simp
      next
        case False
        with Cons.prems \<open>row ''sequence'' = Some v\<close> Some
        have "count_rows base_sequence rows t (out @ [IncorrectLength s]) = (r, out')" by simp
        from Cons.IH [OF this] obtain ws where "out' = (out @ [IncorrectLength s]) @ map IncorrectLength ws"
          by blast
        then have "out' = out @ map IncorrectLength (s # ws)" by simp
        then show ?thesis by blast
      qed
    qed
  qed
qed

lemma count_rows_Inr:
  "count_rows base_sequence rows t out = (Inr t', out') \<Longrightarrow>
     \<exists>seqs. those (map sequence_cell rows) = Some seqs"
proof (induction rows arbitrary: t out)
  case Nil
  then show ?case by simp
next
  case (Cons row rows)
  from Cons.prems obtain s where row: "row ''sequence'' = Some (Some s)"
    by (auto split: option.splits)
  from Cons.prems row obtain t1 out1 where "count_rows base_sequence rows t1 out1 = (Inr t', out')"
    by (auto split: if_splits)
  from Cons.IH [OF this] obtain rest where "those (map sequence_cell rows) = Some rest" by blast
  moreover have "sequence_cell row = Some s" using row by (simp add: sequence_cell_def)
  ultimately show ?case by simp
qed

lemma handler_not_written: "handler input_csv_file e \<noteq> FrequenciesWritten p"
  by (cases e) simp_all

lemma calculate_written:
  assumes run: "calculate_mutation_frequencies input_csv_file base_sequence output_csv_file fs =
                  (printed, fs')"
    and written: "FrequenciesWritten p \<in> set printed"
  shows "\<exists>rows seqs. fs input_csv_file = Some rows \<and> sequence_column rows = Some seqs \<and>
           valid base_sequence seqs \<noteq> []"
proof (cases "fs input_csv_file")
  case None
  with run written show ?thesis
    by (auto simp: calculate_mutation_frequencies_def calculate_body_def)
next
  case (Some rows)
  show ?thesis
  proof (cases "fieldnames rows")
    case None
    with Some run written show ?thesis
      by (auto simp: calculate_mutation_frequencies_def calculate_body_def)
  next
    case names: (Some names)
    show ?thesis
    proof (cases "''sequence'' \<in> set names")
      case False
      with Some names run written show ?thesis
        by (auto simp: calculate_mutation_frequencies_def calculate_body_def)
    next
      case True
      obtain r out where cr: "count_rows base_sequence (dict_rows rows) empty_tally [] = (r, out)"
        by (cases "count_rows base_sequence (dict_rows rows) empty_tally []") blast
      from count_rows_prints [OF cr] obtain ws where out: "out = map IncorrectLength ws" by auto
      show ?thesis
      proof (cases r)
        case (Inl e)
        with Some names True cr run have "printed = out @ [handler input_csv_file e]"
          by (auto simp: calculate_mutation_frequencies_def calculate_body_def)
        with written out handler_not_written [of input_csv_file e p] show ?thesis by auto
      next
        case (Inr t)
        from count_rows_Inr [OF cr [unfolded Inr]] obtain seqs where
          "those (map sequence_cell (dict_rows rows)) = Some seqs" by blast
        with names True have col: "sequence_column rows = Some seqs"
          by (simp add: sequence_column_def)
        have "valid base_sequence seqs \<noteq> []"
        proof
          assume "valid base_sequence seqs = []"
          with calculate_on_sequences [where fs = fs, OF Some col, of base_sequence output_csv_file] run
          have "printed = map IncorrectLength (skipped base_sequence seqs) @ [NoValidSequences]"
            by simp
          with written show False by auto
        qed
        with Some col show ?thesis by blast
      qed
    qed
  qed
qed

lemma amino_acids_length: "length amino_acids = 20"
  by (simp add: amino_acids_def)

lemma format_zero: "format_6f (true_divide 0 t) = ''0.000000''"
  by (simp add: format_6f_def true_divide_def six_digits_def str_nat.simps digit_def)

subsection \<open>Runs that fail\<close>

lemma missing_input_reported:
  "fs input_csv_file = None \<Longrightarrow>
     calculate_mutation_frequencies input_csv_file base_sequence output_csv_file fs =
       ([InputNotFound input_csv_file], fs)"
  by (simp add: calculate_mutation_frequencies_def calculate_body_def)

lemma empty_file_reported:
  "fs input_csv_file = Some [] \<Longrightarrow>
     calculate_mutation_frequencies input_csv_file base_sequence output_csv_file fs =
       ([UnexpectedError TypeError], fs)"
  by (simp add: calculate_mutation_frequencies_def calculate_body_def fieldnames_def)

text \<open>
  Every field name is a key of the dictionary of a row, so \<open>row['sequence']\<close> is
  defined whenever \<open>sequence\<close> is a field name.
\<close>

lemma dom_fold_cells:
  "dom (fold (\<lambda>(k, v) d. d(k \<mapsto> Some v)) kvs d) = dom d \<union> fst ` set kvs"
proof (induction kvs arbitrary: d)
  case Nil
  show ?case by simp
next
  case (Cons kv kvs)
  obtain k v where kv: "kv = (k, v)" by (cases kv)
  have "dom (fold (\<lambda>(k, v) d. d(k \<mapsto> Some v)) (kv # kvs) d) =
        dom (fold (\<lambda>(k, v) d. d(k \<mapsto> Some v)) kvs (d(k \<mapsto> Some v)))"
    by (simp add: kv)
  also have "\<dots> = dom (d(k \<mapsto> Some v)) \<union> fst ` set kvs" by (rule Cons.IH)
  also have "\<dots> = dom d \<union> fst ` set (kv # kvs)" by (auto simp: kv)
  finally show ?case .
qed

lemma dom_fold_rest:
  "dom (fold (\<lambda>k d. d(k \<mapsto> None)) ks d) = dom d \<union> set ks"
proof (induction ks arbitrary: d)
  case Nil
  show ?case by simp
next
  case (Cons k ks)
  have "dom (fold (\<lambda>k d. d(k \<mapsto> None)) (k # ks) d) =
        dom (fold (\<lambda>k d. d(k \<mapsto> None)) ks (d(k \<mapsto> None)))"
    by simp
  also have "\<dots> = dom (d(k \<mapsto> None)) \<union> set ks" by (rule Cons.IH)
  also have "\<dots> = dom d \<union> set (k # ks)" by auto
  finally show ?case .
qed

lemma fst_set_zip:
  "fst ` set (zip names row) = set (take (min (length names) (length row)) names)"
  by (simp only: set_map [symmetric] map_fst_zip_take)

lemma dom_dict_row: "dom (dict_row names row) = set names"
proof (cases "length row < length names")
  case True
  have "set names = set (take (length row) names @ drop (length row) names)"
    by (simp only: append_take_drop_id)
  then have "set names = set (take (length row) names) \<union> set (drop (length row) names)"
    by (simp only: set_append)
  then show ?thesis
    using True by (simp add: dict_row_def Let_def dom_fold_rest dom_fold_cells fst_set_zip min_def)
next
  case False
  then show ?thesis
    by (simp add: dict_row_def Let_def dom_fold_cells fst_set_zip min_def)
qed

text \<open>The table is written by the runs that print so, and by no other.\<close>

lemma calculate_unchanged:
  assumes "calculate_mutation_frequencies input_csv_file base_sequence output_csv_file fs =
             (printed, fs')"
    and "FrequenciesWritten output_csv_file \<notin> set printed"
  shows "fs' = fs"
  using assms
  by (auto simp: calculate_mutation_frequencies_def calculate_body_def
      split: option.splits if_splits prod.splits sum.splits)

text \<open>
  A record that is shorter than the first row and so has no cell in the \<open>sequence\<close>
  column ends the run: \<open>len(None)\<close> raises \<open>TypeError\<close>, which is printed as an
  unexpected error after the warnings of the records before it, and nothing is written.
\<close>

lemma count_rows_without_sequence:
  assumes "\<forall>row \<in> set rows. row ''sequence'' \<noteq> None"
    and "those (map sequence_cell rows) = None"
  shows "\<exists>ws. count_rows base_sequence rows t out = (Inl TypeError, out @ map IncorrectLength ws)"
  using assms
proof (induction rows arbitrary: t out)
  case Nil
  then show ?case by simp
next
  case (Cons row rows)
  from Cons.prems(1) obtain v where v: "row ''sequence'' = Some v" by auto
  show ?case
  proof (cases v)
    case None
    with v have "count_rows base_sequence (row # rows) t out = (Inl TypeError, out @ map IncorrectLength [])"
      by simp
    then show ?thesis by blast
  next
    case (Some s)
    with v have cell: "sequence_cell row = Some s" by (simp add: sequence_cell_def)
    with Cons.prems(2) have rest: "those (map sequence_cell rows) = None"
      by (simp split: option.splits)
    have keys: "\<forall>r \<in> set rows. r ''sequence'' \<noteq> None"
      using Cons.prems(1) by simp
    show ?thesis
    proof (cases "length s = length base_sequence")
      case True
      from Cons.IH [OF keys rest] obtain ws where
        "count_rows base_sequence rows
           \<lparr>mutation_counts = compare_sequence base_sequence s (mutation_counts t),
            total_sequences = total_sequences t + 1\<rparr> out =
         (Inl TypeError, out @ map IncorrectLength ws)"
        by blast
      with v Some True show ?thesis by auto
    next
      case False
      from Cons.IH [OF keys rest] obtain ws where
        "count_rows base_sequence rows t (out @ [IncorrectLength s]) =
         (Inl TypeError, (out @ [IncorrectLength s]) @ map IncorrectLength ws)"
        by blast
      with v Some False have "count_rows base_sequence (row # rows) t out =
         (Inl TypeError, out @ map IncorrectLength (s # ws))"
        by simp
      then show ?thesis by blast
    qed
  qed
qed

lemma record_without_sequence_reported:
  assumes "fs input_csv_file = Some rows" and "fieldnames rows = Some names"
    and "''sequence'' \<in> set names" and "sequence_column rows = None"
  shows "\<exists>ws. calculate_mutation_frequencies input_csv_file base_sequence output_csv_file fs =
           (map IncorrectLength ws @ [UnexpectedError TypeError], fs)"
proof -
  from assms(2) obtain rest where rows: "rows = names # rest"
    by (auto simp: fieldnames_def split: list.splits)
  have keys: "\<forall>row \<in> set (dict_rows rows). row ''sequence'' \<noteq> None"
  proof
    fix row assume "row \<in> set (dict_rows rows)"
    then obtain r where "row = dict_row names r" by (auto simp: rows dict_rows_def)
    then have "dom row = set names" by (simp add: dom_dict_row)
    with assms(3) show "row ''sequence'' \<noteq> None" by auto
  qed
  have none: "those (map sequence_cell (dict_rows rows)) = None"
    using assms(2-4) by (simp add: sequence_column_def)
  from count_rows_without_sequence [OF keys none, of base_sequence empty_tally "[]"]
  obtain ws where
    "count_rows base_sequence (dict_rows rows) empty_tally [] =
       (Inl TypeError, map IncorrectLength ws)"
    by auto
  then show ?thesis
    using assms(1-3) by (auto simp: calculate_mutation_frequencies_def calculate_body_def)
qed

subsection \<open>Sums over the alphabet\<close>

lemma length_filter_disjoint:
  "(\<And>y. y \<in> set ys \<Longrightarrow> \<not> (A y \<and> B y)) \<Longrightarrow>
     length (filter A ys) + length (filter B ys) = length (filter (\<lambda>y. A y \<or> B y) ys)"
  by (induction ys) auto

lemma sum_list_count_by_symbol:
  "distinct xs \<Longrightarrow>
     sum_list (map (\<lambda>x. length (filter (\<lambda>s. P s \<and> f s = x) ys)) xs) =
     length (filter (\<lambda>s. P s \<and> f s \<in> set xs) ys)"
proof (induction xs)
  case Nil
  show ?case by simp
next
  case (Cons x xs)
  then have IH: "sum_list (map (\<lambda>x. length (filter (\<lambda>s. P s \<and> f s = x) ys)) xs) =
     length (filter (\<lambda>s. P s \<and> f s \<in> set xs) ys)" and x: "x \<notin> set xs"
    by simp_all
  have "length (filter (\<lambda>s. P s \<and> f s = x) ys) + length (filter (\<lambda>s. P s \<and> f s \<in> set xs) ys) =
        length (filter (\<lambda>s. (P s \<and> f s = x) \<or> (P s \<and> f s \<in> set xs)) ys)"
    by (rule length_filter_disjoint) (use x in auto)
  also have "\<dots> = length (filter (\<lambda>s. P s \<and> f s \<in> set (x # xs)) ys)"
    by (rule arg_cong [where f = length], rule filter_cong) auto
  finally show ?case by (simp add: IH)
qed

lemma distinct_amino_acids: "distinct amino_acids"
  by (simp add: amino_acids_def)

lemma sum_mismatches:
  "sum_list (map (mismatches base_sequence seqs i) amino_acids) =
     differing_canonical base_sequence seqs i"
  unfolding mismatches_def [abs_def] differing_canonical_def
  by (rule sum_list_count_by_symbol [OF distinct_amino_acids])

lemma length_filter_mono:
  "(\<And>y. y \<in> set ys \<Longrightarrow> A y \<Longrightarrow> B y) \<Longrightarrow> length (filter A ys) \<le> length (filter B ys)"
  by (induction ys) auto

lemma differing_canonical_le: "differing_canonical base_sequence seqs i \<le> differing base_sequence seqs i"
  unfolding differing_canonical_def differing_def by (rule length_filter_mono) simp

lemma differing_le: "differing base_sequence seqs i \<le> length (valid base_sequence seqs)"
  unfolding differing_def by (rule length_filter_le)

lemma mismatches_le: "mismatches base_sequence seqs i x \<le> length (valid base_sequence seqs)"
  unfolding mismatches_def by (rule length_filter_le)

lemma differing_canonical_eq:
  assumes "\<And>s. s \<in> set (valid base_sequence seqs) \<Longrightarrow> s ! i \<noteq> base_sequence ! i \<Longrightarrow> s ! i \<in> set amino_acids"
  shows "differing_canonical base_sequence seqs i = differing base_sequence seqs i"
  unfolding differing_canonical_def differing_def
  by (rule arg_cong [where f = length], rule filter_cong) (use assms in auto)

text \<open>Replacing a symbol outside the alphabet by the reference's symbol changes no row.\<close>

lemma valid_replace:
  "length (valid base_sequence (before @ s[i := c] # after)) =
   length (valid base_sequence (before @ s # after))"
  by (simp add: valid_def)

lemma mismatches_replace:
  assumes "length s = length base_sequence" "i < length base_sequence"
    and "s ! i \<noteq> x"
  shows "mismatches base_sequence (before @ s[i := base_sequence ! i] # after) j x =
         mismatches base_sequence (before @ s # after) j x"
proof -
  have "(s[i := base_sequence ! i] ! j \<noteq> base_sequence ! j \<and> s[i := base_sequence ! i] ! j = x) =
        (s ! j \<noteq> base_sequence ! j \<and> s ! j = x)"
    using assms by (cases "j = i") auto
  then show ?thesis using assms by (simp add: mismatches_def valid_def)
qed

lemma table_row_replace:
  assumes "length s = length base_sequence" "i < length base_sequence"
    and "s ! i \<notin> set amino_acids"
  shows "table_row base_sequence (before @ s[i := base_sequence ! i] # after) j =
         table_row base_sequence (before @ s # after) j"
proof -
  have "mismatches base_sequence (before @ s[i := base_sequence ! i] # after) j aa =
        mismatches base_sequence (before @ s # after) j aa" if "aa \<in> set amino_acids" for aa
    using assms that by (intro mismatches_replace) auto
  then show ?thesis
    by (simp add: table_row_def valid_replace)
qed

subsection \<open>Sums of written cells\<close>

lemma sum_list_close:
  fixes f g :: "'a \<Rightarrow> rat"
  assumes "xs \<noteq> []" and "\<And>x. x \<in> set xs \<Longrightarrow> \<bar>f x - g x\<bar> < e"
  shows "\<bar>sum_list (map f xs) - sum_list (map g xs)\<bar> < of_nat (length xs) * e"
  using assms
proof (induction xs rule: list_nonempty_induct)
  case (single x)
  then show ?case by simp
next
  case (cons x xs)
  have "\<bar>f x - g x\<bar> < e" using cons.prems by simp
  moreover have "\<bar>sum_list (map f xs) - sum_list (map g xs)\<bar> < of_nat (length xs) * e"
    using cons.IH cons.prems by simp
  ultimately show ?case by (simp add: algebra_simps)
qed

lemma sum_list_le_plus:
  fixes f g :: "'a \<Rightarrow> rat"
  assumes "\<And>x. x \<in> set xs \<Longrightarrow> f x \<le> g x + e"
  shows "sum_list (map f xs) \<le> sum_list (map g xs) + of_nat (length xs) * e"
  using assms
proof (induction xs)
  case Nil
  show ?case by simp
next
  case (Cons x xs)
  have "f x \<le> g x + e" using Cons.prems by simp
  moreover have "sum_list (map f xs) \<le> sum_list (map g xs) + of_nat (length xs) * e"
    using Cons.IH Cons.prems by simp
  ultimately show ?case by (simp add: algebra_simps)
qed

lemma sum_list_quotients:
  "sum_list (map (\<lambda>x. (of_nat (c x) :: rat) / of_nat t) xs) = of_nat (sum_list (map c xs)) / of_nat t"
  by (induction xs) (simp_all add: add_divide_distrib)

lemma sum_list_of_nat_div:
  "sum_list (map (\<lambda>x. (of_nat (m x) :: rat) / d) xs) = of_nat (sum_list (map m xs)) / d"
  by (induction xs) (simp_all add: add_divide_distrib)

text \<open>The cells of a row, read back as numbers.\<close>

lemma cells_sum_close:
  assumes t: "0 < length (valid base_sequence seqs)"
  shows "\<bar>sum_list (map decimal_value (tl (table_row base_sequence seqs i))) *
            of_nat (length (valid base_sequence seqs)) -
          of_nat (differing_canonical base_sequence seqs i)\<bar>
         < 20 * of_nat (length (valid base_sequence seqs)) / 1000000"
proof -
  define t where "t = length (valid base_sequence seqs)"
  define c where "c = mismatches base_sequence seqs i"
  have tpos: "(0 :: rat) < of_nat t" using assms by (simp add: t_def)
  have cells: "map decimal_value (tl (table_row base_sequence seqs i)) =
                 map (\<lambda>aa. decimal_value (format_6f (true_divide (c aa) t))) amino_acids"
    by (simp add: table_row_def c_def t_def comp_def)
  have "\<bar>sum_list (map (\<lambda>aa. decimal_value (format_6f (true_divide (c aa) t))) amino_acids) -
         sum_list (map (\<lambda>aa. of_nat (c aa) / of_nat t) amino_acids)\<bar>
        < of_nat (length amino_acids) * (1 / 1000000)"
  proof (rule sum_list_close)
    show "amino_acids \<noteq> []" by (simp add: amino_acids_def)
    show "\<bar>decimal_value (format_6f (true_divide (c aa) t)) - of_nat (c aa) / of_nat t\<bar> < 1 / 1000000"
      for aa
      by (rule written_error) (use assms in \<open>simp_all add: t_def c_def mismatches_le\<close>)
  qed
  then have close: "\<bar>sum_list (map decimal_value (tl (table_row base_sequence seqs i))) -
         of_nat (differing_canonical base_sequence seqs i) / of_nat t\<bar> < 20 / 1000000"
    by (simp add: cells sum_list_quotients c_def sum_mismatches amino_acids_length)
  define S where "S = sum_list (map decimal_value (tl (table_row base_sequence seqs i)))"
  define D where "D = (of_nat (differing_canonical base_sequence seqs i) :: rat)"
  from close have "\<bar>S - D / of_nat t\<bar> < 20 / 1000000" by (simp add: S_def D_def)
  then have "\<bar>S - D / of_nat t\<bar> * of_nat t < 20 / 1000000 * of_nat t"
    using tpos by (simp add: mult_strict_right_mono)
  moreover have "\<bar>S - D / of_nat t\<bar> * of_nat t = \<bar>S * of_nat t - D\<bar>"
  proof -
    have "\<bar>S - D / of_nat t\<bar> * of_nat t = \<bar>(S - D / of_nat t) * of_nat t\<bar>"
      using tpos by (simp add: abs_mult)
    also have "(S - D / of_nat t) * of_nat t = S * of_nat t - D"
      using tpos by (simp add: field_simps)
    finally show ?thesis .
  qed
  ultimately show ?thesis by (simp add: S_def D_def t_def)
qed

lemma cells_in_unit_interval:
  assumes t: "0 < length (valid base_sequence seqs)"
    and cell: "cell \<in> set (tl (table_row base_sequence seqs i))"
  shows "0 \<le> decimal_value cell \<and> decimal_value cell \<le> 1"
proof -
  from cell obtain aa where
    "cell = format_6f (true_divide (mismatches base_sequence seqs i aa)
                         (length (valid base_sequence seqs)))"
    by (auto simp: table_row_def)
  moreover have "millionths (true_divide (mismatches base_sequence seqs i aa)
                         (length (valid base_sequence seqs))) \<le> 1000000"
    by (rule millionths_le) (use t in \<open>simp_all add: mismatches_le\<close>)
  ultimately show ?thesis
    by (simp add: decimal_value_format_6f)
qed

lemma cells_sum_le:
  assumes t: "0 < length (valid base_sequence seqs)"
  shows "sum_list (map decimal_value (tl (table_row base_sequence seqs i))) \<le> 1 + 1 / 100000"
proof -
  define t where "t = length (valid base_sequence seqs)"
  define c where "c = mismatches base_sequence seqs i"
  define m where "m = (\<lambda>aa. millionths (true_divide (c aa) t))"
  have tpos: "(0 :: rat) < of_nat t" using assms by (simp add: t_def)
  have cells: "map decimal_value (tl (table_row base_sequence seqs i)) =
                 map (\<lambda>aa. of_nat (m aa) / 1000000) amino_acids"
    by (simp add: table_row_def c_def t_def m_def comp_def decimal_value_format_6f)
  have each: "(of_nat (m aa) :: rat) / 1000000 \<le> of_nat (c aa) / of_nat t + (1 / 2000000 + 1 / 2 ^ 53)" for aa
  proof -
    have "\<bar>(of_nat (m aa) :: rat) / 1000000 - float_value (true_divide (c aa) t)\<bar> \<le> 1 / 2000000"
      unfolding m_def by (rule millionths_error)
    moreover have "\<bar>float_value (true_divide (c aa) t) - of_nat (c aa) / of_nat t\<bar> \<le> 1 / 2 ^ 53"
      by (rule true_divide_error) (use assms in \<open>simp_all add: t_def c_def mismatches_le\<close>)
    ultimately show ?thesis by linarith
  qed
  have "sum_list (map (\<lambda>aa. (of_nat (m aa) :: rat) / 1000000) amino_acids) \<le>
          sum_list (map (\<lambda>aa. of_nat (c aa) / of_nat t) amino_acids) +
          of_nat (length amino_acids) * (1 / 2000000 + 1 / 2 ^ 53)"
    by (rule sum_list_le_plus) (rule each)
  also have "sum_list (map (\<lambda>aa. (of_nat (c aa) :: rat) / of_nat t) amino_acids) \<le> 1"
  proof -
    have "sum_list (map c amino_acids) \<le> t"
      unfolding c_def t_def sum_mismatches
      by (rule order_trans [OF differing_canonical_le differing_le])
    then have "(of_nat (sum_list (map c amino_acids)) :: rat) \<le> of_nat t" by simp
    then show ?thesis using tpos by (simp add: sum_list_quotients)
  qed
  finally have "(of_nat (sum_list (map m amino_acids)) :: rat) / 1000000 \<le>
                  1 + 20 * (1 / 2000000 + 1 / 2 ^ 53)"
    by (simp add: sum_list_of_nat_div amino_acids_length)
  then have "(of_nat (sum_list (map m amino_acids)) :: rat) < of_nat 1000011"
    by simp
  then have "sum_list (map m amino_acids) < 1000011" by (simp only: of_nat_less_iff)
  then have "sum_list (map m amino_acids) \<le> 1000010" by simp
  then have "(of_nat (sum_list (map m amino_acids)) :: rat) \<le> of_nat 1000010"
    by (simp only: of_nat_le_iff)
  then show ?thesis
    by (simp add: cells sum_list_of_nat_div)
qed

subsection \<open>Concrete cells and rows\<close>

lemmas float_eval = format_6f_def true_divide_def exponent_def bit_length.simps
  round_half_even_def six_digits_def str_nat.simps digit_def Let_def

lemma format_sixth: "format_6f (true_divide (Suc 0) 6) = ''0.166667''"
  by (simp add: float_eval)

lemma format_half: "format_6f (true_divide 3 6) = ''0.500000''"
  by (simp add: float_eval)

lemma format_third: "format_6f (true_divide (Suc 0) 3) = ''0.333333''"
  by (simp add: float_eval)

lemma format_quarter: "format_6f (true_divide (Suc 0) 4) = ''0.250000''"
  by (simp add: float_eval)

lemma table_row_counts:
  "table_row base_sequence seqs i =
     str_nat (i + 1) #
     map (\<lambda>c. format_6f (true_divide c (length (valid base_sequence seqs))))
       (map (mismatches base_sequence seqs i) amino_acids)"
  by (simp add: table_row_def comp_def)

lemma calculate_written_table:
  assumes "calculate_mutation_frequencies input_csv_file base_sequence output_csv_file fs =
             (printed, fs')"
    and "FrequenciesWritten output_csv_file \<in> set printed"
  shows "\<exists>rows seqs.
           fs input_csv_file = Some rows \<and> sequence_column rows = Some seqs \<and>
           0 < length (valid base_sequence seqs) \<and>
           fs' output_csv_file =
             Some (header # map (table_row base_sequence seqs) [0..<length base_sequence])"
proof -
  from calculate_written [OF assms] obtain rows seqs where
    inp: "fs input_csv_file = Some rows" and col: "sequence_column rows = Some seqs"
    and ne: "valid base_sequence seqs \<noteq> []"
    by blast
  from calculate_on_sequences [where fs = fs, OF inp col, of base_sequence output_csv_file]
    assms(1) ne
  have "fs' = fs(output_csv_file \<mapsto>
                  header # map (table_row base_sequence seqs) [0..<length base_sequence])"
    by simp
  with inp col ne show ?thesis by auto
qed

lemma replicate_20: "replicate 20 z = [z, z, z, z, z, z, z, z, z, z, z, z, z, z, z, z, z, z, z, z]"
  by (simp add: numeral_eq_Suc)

lemma scenario_counts_0: "map (mismatches ''AAAA'' [''AAAA'', ''ABAA'', ''AABA'', ''AAAA''] 0) amino_acids = replicate 20 0"
  unfolding replicate_20 by (simp add: mismatches_def valid_def amino_acids_def)

lemma scenario_counts_1: "map (mismatches ''AAAA'' [''AAAA'', ''ABAA'', ''AABA'', ''AAAA''] 1) amino_acids = replicate 20 0"
  unfolding replicate_20 by (simp add: mismatches_def valid_def amino_acids_def)

lemma scenario_counts_2: "map (mismatches ''AAAA'' [''AAAA'', ''ABAA'', ''AABA'', ''AAAA''] 2) amino_acids = replicate 20 0"
  unfolding replicate_20 by (simp add: mismatches_def valid_def amino_acids_def)

lemma scenario_counts_3: "map (mismatches ''AAAA'' [''AAAA'', ''ABAA'', ''AABA'', ''AAAA''] 3) amino_acids = replicate 20 0"
  unfolding replicate_20 by (simp add: mismatches_def valid_def amino_acids_def)

lemma upt_four: "[0..<length ''AAAA''] = [0, 1, 2, 3]"
  by (simp add: upt_rec)

lemma valid_skip:
  "length s \<noteq> length base_sequence \<Longrightarrow>
     valid base_sequence (before @ s # after) = valid base_sequence (before @ after)"
  by (simp add: valid_def)

lemma skipped_skip:
  "length s \<noteq> length base_sequence \<Longrightarrow>
     skipped base_sequence (before @ s # after) =
       skipped base_sequence before @ s # skipped base_sequence after"
  by (simp add: skipped_def)

lemma table_row_skip:
  "length s \<noteq> length base_sequence \<Longrightarrow>
     table_row base_sequence (before @ s # after) = table_row base_sequence (before @ after)"
  by (rule ext) (simp add: table_row_def mismatches_def valid_skip)

lemma scenario_C_counts_0:
  "map (mismatches ''AAAA'' [''AAAA'', ''ACAA'', ''AACA'', ''AAAA''] 0) amino_acids = replicate 20 0"
  unfolding replicate_20 by (simp add: mismatches_def valid_def amino_acids_def)

lemma scenario_C_counts_1:
  "map (mismatches ''AAAA'' [''AAAA'', ''ACAA'', ''AACA'', ''AAAA''] 1) amino_acids =
     [0, 1, 0, 0, 0, 0, 0, 0, 0, 0, 0, 0, 0, 0, 0, 0, 0, 0, 0, 0]"
  by (simp add: mismatches_def valid_def amino_acids_def)

lemma scenario_C_counts_2:
  "map (mismatches ''AAAA'' [''AAAA'', ''ACAA'', ''AACA'', ''AAAA''] 2) amino_acids =
     [0, 1, 0, 0, 0, 0, 0, 0, 0, 0, 0, 0, 0, 0, 0, 0, 0, 0, 0, 0]"
  by (simp add: mismatches_def valid_def amino_acids_def)

lemma scenario_C_counts_3:
  "map (mismatches ''AAAA'' [''AAAA'', ''ACAA'', ''AACA'', ''AAAA''] 3) amino_acids = replicate 20 0"
  unfolding replicate_20 by (simp add: mismatches_def valid_def amino_acids_def)

lemma replicate_18: "replicate 18 z = [z, z, z, z, z, z, z, z, z, z, z, z, z, z, z, z, z, z]"
  by (simp add: numeral_eq_Suc)

lemma header_cells:
  "header = [''Position'', ''A'', ''C'', ''D'', ''E'', ''F'', ''G'', ''H'', ''I'', ''K'', ''L'',
             ''M'', ''N'', ''P'', ''Q'', ''R'', ''S'', ''T'', ''V'', ''W'', ''Y'']"
  by (simp add: header_def amino_acids_def)

lemma scenario_table:
  "map (table_row ''AAAA'' [''AAAA'', ''ABAA'', ''AABA'', ''AAAA'']) [0..<length ''AAAA''] =
     [''1'' # replicate 20 ''0.000000'', ''2'' # replicate 20 ''0.000000'',
      ''3'' # replicate 20 ''0.000000'', ''4'' # replicate 20 ''0.000000'']"
proof -
  let ?seqs = "[''AAAA'', ''ABAA'', ''AABA'', ''AAAA'']"
  have total: "length (valid ''AAAA'' ?seqs) = 4" by (simp add: valid_def)
  have row: "table_row ''AAAA'' ?seqs i = str_nat (i + 1) # replicate 20 ''0.000000''"
    if "map (mismatches ''AAAA'' ?seqs i) amino_acids = replicate 20 0" for i
    unfolding table_row_counts total that by (simp add: format_zero)
  show ?thesis
    unfolding upt_four list.map row [OF scenario_counts_0] row [OF scenario_counts_1]
      row [OF scenario_counts_2] row [OF scenario_counts_3]
    by (simp add: str_nat.simps digit_def)
qed

lemma scenario_C_table:
  "map (table_row ''AAAA'' [''AAAA'', ''ACAA'', ''AACA'', ''AAAA'']) [0..<length ''AAAA''] =
     [''1'' # replicate 20 ''0.000000'',
      ''2'' # ''0.000000'' # ''0.250000'' # replicate 18 ''0.000000'',
      ''3'' # ''0.000000'' # ''0.250000'' # replicate 18 ''0.000000'',
      ''4'' # replicate 20 ''0.000000'']"
proof -
  let ?seqs = "[''AAAA'', ''ACAA'', ''AACA'', ''AAAA'']"
  have total: "length (valid ''AAAA'' ?seqs) = 4" by (simp add: valid_def)
  have zero: "table_row ''AAAA'' ?seqs i = str_nat (i + 1) # replicate 20 ''0.000000''"
    if "map (mismatches ''AAAA'' ?seqs i) amino_acids = replicate 20 0" for i
    unfolding table_row_counts total that by (simp add: format_zero)
  have one: "table_row ''AAAA'' ?seqs i =
               str_nat (i + 1) # ''0.000000'' # ''0.250000'' # replicate 18 ''0.000000''"
    if "map (mismatches ''AAAA'' ?seqs i) amino_acids =
          [0, 1, 0, 0, 0, 0, 0, 0, 0, 0, 0, 0, 0, 0, 0, 0, 0, 0, 0, 0]" for i
    unfolding table_row_counts total that replicate_18
    by (simp add: format_zero format_quarter)
  show ?thesis
    unfolding upt_four list.map zero [OF scenario_C_counts_0] one [OF scenario_C_counts_1]
      one [OF scenario_C_counts_2] zero [OF scenario_C_counts_3]
    by (simp add: str_nat.simps digit_def)
qed

subsection \<open>Selecting rows by label\<close>


text \<open>The other ways through \<open>plot_mutation_heatmap_v6\<close>.\<close>

lemma missing_table_reported:
  "read_csv input_csv_file = Inl FileNotFoundError \<Longrightarrow>
     plot_mutation_heatmap_v6 read_csv draw input_csv_file positions_to_plot highlight_cells
       output_filename images =
       ([InputNotFound input_csv_file], images)"
  by (simp add: plot_mutation_heatmap_v6_def plot_body_def)

lemma missing_position_column_reported:
  "read_csv input_csv_file = Inr df \<Longrightarrow> ''Position'' \<notin> set (columns df) \<Longrightarrow>
     plot_mutation_heatmap_v6 read_csv draw input_csv_file positions_to_plot highlight_cells
       output_filename images =
       ([PositionNotFound (ColumnKeys [''Position''])], images)"
  by (simp add: plot_mutation_heatmap_v6_def plot_body_def set_index_def)

lemma all_positions_present_drawn:
  assumes "read_csv input_csv_file = Inr df" and "set_index ''Position'' df = Inr table"
    and "\<forall>p \<in> set positions_to_plot. of_int p \<in> set (index table)"
  shows "\<exists>df_selected.
           loc positions_to_plot table = Inr df_selected \<and>
           plot_mutation_heatmap_v6 read_csv draw input_csv_file positions_to_plot
             highlight_cells output_filename images =
             (case draw df_selected positions_to_plot highlight_cells of
                Inr img \<Rightarrow> ([HeatmapSaved output_filename], images(output_filename \<mapsto> img))
              | Inl e \<Rightarrow> ([plot_handler input_csv_file e], images))"
proof -
  have "filter (\<lambda>p. of_int p \<notin> set (index table)) positions_to_plot = []"
    using assms(3) by (simp add: filter_empty_conv)
  then obtain df_selected where "loc positions_to_plot table = Inr df_selected"
    by (simp add: loc_def)
  then show ?thesis
    by (simp add: plot_mutation_heatmap_v6_def plot_body_def assms(1, 2))
qed

section \<open>The properties of the specification\<close>

text \<open>
  C1 (as amended). In the run with the reference \<open>AAAA\<close> and the rows \<open>AAAA\<close>,
  \<open>ABAA\<close>, \<open>AABA\<close>, \<open>AAAA\<close> the loop counts \<open>B\<close> once at index 1 and once at index 2
  (positions 2 and 3) among 4 valid sequences; \<open>B\<close> is not one of the 20 columns, so the
  written rows for positions 1 to 4 are all zero. With \<open>C\<close> in the place of \<open>B\<close> the
  table has \<open>0.250000\<close> in column \<open>C\<close> at positions 2 and 3 and zero everywhere else.
  A row of length 3, wherever it stands among other rows, is skipped with a warning: it
  is not counted in the total and the written table is the one without it.
\<close>

theorem scenario_of_the_specification:
  assumes "length s = 3"
  shows "(\<exists>t. count_rows ''AAAA'' (dict_rows (sequence_file [''AAAA'', ''ABAA'', ''AABA'', ''AAAA'']))
                empty_tally [] = (Inr t, []) \<and>
              total_sequences t = 4 \<and>
              get_count (mutation_counts t) 1 CHR ''B'' = 1 \<and>
              get_count (mutation_counts t) 2 CHR ''B'' = 1) \<and>
         calculate_mutation_frequencies ''in.csv'' ''AAAA'' ''out.csv''
           [''in.csv'' \<mapsto> sequence_file [''AAAA'', ''ABAA'', ''AABA'', ''AAAA'']] =
           ([FrequenciesWritten ''out.csv''],
            [''in.csv'' \<mapsto> sequence_file [''AAAA'', ''ABAA'', ''AABA'', ''AAAA''],
             ''out.csv'' \<mapsto>
               [[''Position'', ''A'', ''C'', ''D'', ''E'', ''F'', ''G'', ''H'', ''I'', ''K'',
                 ''L'', ''M'', ''N'', ''P'', ''Q'', ''R'', ''S'', ''T'', ''V'', ''W'', ''Y''],
                ''1'' # replicate 20 ''0.000000'', ''2'' # replicate 20 ''0.000000'',
                ''3'' # replicate 20 ''0.000000'', ''4'' # replicate 20 ''0.000000'']]) \<and>
         calculate_mutation_frequencies ''in.csv'' ''AAAA'' ''out.csv''
           [''in.csv'' \<mapsto> sequence_file [''AAAA'', ''ACAA'', ''AACA'', ''AAAA'']] =
           ([FrequenciesWritten ''out.csv''],
            [''in.csv'' \<mapsto> sequence_file [''AAAA'', ''ACAA'', ''AACA'', ''AAAA''],
             ''out.csv'' \<mapsto>
               [[''Position'', ''A'', ''C'', ''D'', ''E'', ''F'', ''G'', ''H'', ''I'', ''K'',
                 ''L'', ''M'', ''N'', ''P'', ''Q'', ''R'', ''S'', ''T'', ''V'', ''W'', ''Y''],
                ''1'' # replicate 20 ''0.000000'',
                ''2'' # ''0.000000'' # ''0.250000'' # replicate 18 ''0.000000'',
                ''3'' # ''0.000000'' # ''0.250000'' # replicate 18 ''0.000000'',
                ''4'' # replicate 20 ''0.000000'']]) \<and>
         (\<exists>t out. count_rows ''AAAA'' (dict_rows (sequence_file (before @ s # after)))
                    empty_tally [] = (Inr t, out) \<and>
                  IncorrectLength s \<in> set out \<and>
                  total_sequences t = length (valid ''AAAA'' (before @ after))) \<and>
         snd (calculate_mutation_frequencies ''in.csv'' ''AAAA'' ''out.csv''
                [''in.csv'' \<mapsto> sequence_file (before @ s # after)]) ''out.csv'' =
         snd (calculate_mutation_frequencies ''in.csv'' ''AAAA'' ''out.csv''
                [''in.csv'' \<mapsto> sequence_file (before @ after)]) ''out.csv''"
proof -
  let ?B = "[''AAAA'', ''ABAA'', ''AABA'', ''AAAA'']"
  let ?C = "[''AAAA'', ''ACAA'', ''AACA'', ''AAAA'']"
  have len: "length s \<noteq> length ''AAAA''" using assms by simp
  have counted: "\<exists>t. count_rows ''AAAA'' (dict_rows (sequence_file ?B)) empty_tally [] = (Inr t, []) \<and>
              total_sequences t = 4 \<and>
              get_count (mutation_counts t) 1 CHR ''B'' = 1 \<and>
              get_count (mutation_counts t) 2 CHR ''B'' = 1"
  proof -
    from count_rows_file [OF sequence_column_sequence_file, of "''AAAA''" ?B] obtain t where
      run: "count_rows ''AAAA'' (dict_rows (sequence_file ?B)) empty_tally [] =
              (Inr t, map IncorrectLength (skipped ''AAAA'' ?B))"
      and tot: "total_sequences t = length (valid ''AAAA'' ?B)"
      and cnt: "\<And>i x. i < length ''AAAA'' \<Longrightarrow>
                  get_count (mutation_counts t) i x = mismatches ''AAAA'' ?B i x"
      by blast
    have "count_rows ''AAAA'' (dict_rows (sequence_file ?B)) empty_tally [] = (Inr t, [])"
      using run by (simp add: skipped_def)
    moreover have "total_sequences t = 4" using tot by (simp add: valid_def)
    moreover have "get_count (mutation_counts t) 1 CHR ''B'' = 1"
      by (simp add: cnt mismatches_def valid_def)
    moreover have "get_count (mutation_counts t) 2 CHR ''B'' = 1"
      by (simp add: cnt mismatches_def valid_def)
    ultimately show ?thesis by blast
  qed
  have runB: "calculate_mutation_frequencies ''in.csv'' ''AAAA'' ''out.csv''
           [''in.csv'' \<mapsto> sequence_file ?B] =
           ([FrequenciesWritten ''out.csv''],
            [''in.csv'' \<mapsto> sequence_file ?B,
             ''out.csv'' \<mapsto> header # map (table_row ''AAAA'' ?B) [0..<length ''AAAA'']])"
    using calculate_on_sequences [of "[''in.csv'' \<mapsto> sequence_file ?B]" "''in.csv''"
        "sequence_file ?B" ?B "''AAAA''" "''out.csv''"]
    by (simp add: sequence_column_sequence_file valid_def skipped_def)
  have runC: "calculate_mutation_frequencies ''in.csv'' ''AAAA'' ''out.csv''
           [''in.csv'' \<mapsto> sequence_file ?C] =
           ([FrequenciesWritten ''out.csv''],
            [''in.csv'' \<mapsto> sequence_file ?C,
             ''out.csv'' \<mapsto> header # map (table_row ''AAAA'' ?C) [0..<length ''AAAA'']])"
    using calculate_on_sequences [of "[''in.csv'' \<mapsto> sequence_file ?C]" "''in.csv''"
        "sequence_file ?C" ?C "''AAAA''" "''out.csv''"]
    by (simp add: sequence_column_sequence_file valid_def skipped_def)
  have skip_counted: "\<exists>t out. count_rows ''AAAA'' (dict_rows (sequence_file (before @ s # after)))
                    empty_tally [] = (Inr t, out) \<and>
                  IncorrectLength s \<in> set out \<and>
                  total_sequences t = length (valid ''AAAA'' (before @ after))"
  proof -
    from count_rows_file [OF sequence_column_sequence_file, of "''AAAA''" "before @ s # after"]
    obtain t where
      run: "count_rows ''AAAA'' (dict_rows (sequence_file (before @ s # after))) empty_tally [] =
              (Inr t, map IncorrectLength (skipped ''AAAA'' (before @ s # after)))"
      and tot: "total_sequences t = length (valid ''AAAA'' (before @ s # after))"
      by blast
    have "IncorrectLength s \<in> set (map IncorrectLength (skipped ''AAAA'' (before @ s # after)))"
      by (simp add: skipped_skip [OF len])
    moreover have "total_sequences t = length (valid ''AAAA'' (before @ after))"
      using tot by (simp add: valid_skip [OF len])
    ultimately show ?thesis using run by blast
  qed
  have skip_table: "snd (calculate_mutation_frequencies ''in.csv'' ''AAAA'' ''out.csv''
                [''in.csv'' \<mapsto> sequence_file (before @ s # after)]) ''out.csv'' =
         snd (calculate_mutation_frequencies ''in.csv'' ''AAAA'' ''out.csv''
                [''in.csv'' \<mapsto> sequence_file (before @ after)]) ''out.csv''"
    using calculate_on_sequences [of "[''in.csv'' \<mapsto> sequence_file (before @ s # after)]"
        "''in.csv''" "sequence_file (before @ s # after)" "before @ s # after" "''AAAA''" "''out.csv''"]
      calculate_on_sequences [of "[''in.csv'' \<mapsto> sequence_file (before @ after)]"
        "''in.csv''" "sequence_file (before @ after)" "before @ after" "''AAAA''" "''out.csv''"]
    by (simp add: sequence_column_sequence_file valid_skip [OF len] table_row_skip [OF len])
  show ?thesis
    unfolding runB runC scenario_table scenario_C_table header_cells
    using counted skip_counted skip_table by (intro conjI) (rule refl | assumption)+
qed

theorem scenario_of_the_specification_witness:
  "length ''AAA'' = 3 \<and>
   snd (calculate_mutation_frequencies ''in.csv'' ''AAAA'' ''out.csv''
          [''in.csv'' \<mapsto> sequence_file [''AAAA'', ''ABAA'', ''AAA'', ''AABA'', ''AAAA'']])
     ''out.csv'' =
   snd (calculate_mutation_frequencies ''in.csv'' ''AAAA'' ''out.csv''
          [''in.csv'' \<mapsto> sequence_file [''AAAA'', ''ABAA'', ''AABA'', ''AAAA'']]) ''out.csv''"
  using scenario_of_the_specification [of "''AAA''" "[''AAAA'', ''ABAA'']" "[''AABA'', ''AAAA'']"]
  by simp

text \<open>
  Against C1 as stated: the table of that run has no column \<open>B\<close>, and \<open>0.250000\<close>
  occurs neither in its row for position 2 nor in its row for position 3.
\<close>

theorem scenario_reports_no_B:
  "snd (calculate_mutation_frequencies ''in.csv'' ''AAAA'' ''out.csv''
          [''in.csv'' \<mapsto> sequence_file [''AAAA'', ''ABAA'', ''AABA'', ''AAAA'']]) ''out.csv'' =
     Some [[''Position'', ''A'', ''C'', ''D'', ''E'', ''F'', ''G'', ''H'', ''I'', ''K'',
            ''L'', ''M'', ''N'', ''P'', ''Q'', ''R'', ''S'', ''T'', ''V'', ''W'', ''Y''],
           ''1'' # replicate 20 ''0.000000'', ''2'' # replicate 20 ''0.000000'',
           ''3'' # replicate 20 ''0.000000'', ''4'' # replicate 20 ''0.000000''] \<and>
   ''B'' \<notin> set [''Position'', ''A'', ''C'', ''D'', ''E'', ''F'', ''G'', ''H'', ''I'', ''K'',
                 ''L'', ''M'', ''N'', ''P'', ''Q'', ''R'', ''S'', ''T'', ''V'', ''W'', ''Y''] \<and>
   ''0.250000'' \<notin> set (''2'' # replicate 20 ''0.000000'') \<and>
   ''0.250000'' \<notin> set (''3'' # replicate 20 ''0.000000'')"
proof -
  let ?B = "[''AAAA'', ''ABAA'', ''AABA'', ''AAAA'']"
  have runB: "snd (calculate_mutation_frequencies ''in.csv'' ''AAAA'' ''out.csv''
           [''in.csv'' \<mapsto> sequence_file ?B]) ''out.csv'' =
           Some (header # map (table_row ''AAAA'' ?B) [0..<length ''AAAA''])"
    using calculate_on_sequences [of "[''in.csv'' \<mapsto> sequence_file ?B]" "''in.csv''"
        "sequence_file ?B" ?B "''AAAA''" "''out.csv''"]
    by (simp add: sequence_column_sequence_file valid_def skipped_def)
  show ?thesis
    unfolding runB scenario_table header_cells by simp
qed

text \<open>
  C2 (as amended). After a successful run, at each position the counts behind the 20
  columns sum to the number of valid sequences whose symbol there differs from the
  reference's and is one of the 20 symbols of the alphabet; so the exact quotients
  count/total, summed and multiplied by the total, give that number. It is the number of
  all differing sequences when every differing symbol at the position is in the alphabet.
  The written cells are these quotients rounded to six decimals: their sum multiplied by
  the total differs from that number by less than 20 millionths of the total.
\<close>

theorem column_sum_counts_canonical_mismatches:
  assumes "calculate_mutation_frequencies input_csv_file base_sequence output_csv_file fs =
             (printed, fs')"
    and "FrequenciesWritten output_csv_file \<in> set printed"
  shows "\<exists>rows seqs table.
           fs input_csv_file = Some rows \<and> sequence_column rows = Some seqs \<and>
           fs' output_csv_file = Some (header # table) \<and>
           length table = length base_sequence \<and>
           (\<forall>i < length base_sequence.
              tl (table ! i) =
                map (\<lambda>aa. format_6f (true_divide (mismatches base_sequence seqs i aa)
                                   (length (valid base_sequence seqs)))) amino_acids \<and>
              sum_list (map (mismatches base_sequence seqs i) amino_acids) =
                differing_canonical base_sequence seqs i \<and>
              sum_list (map (\<lambda>aa. (of_nat (mismatches base_sequence seqs i aa) :: rat) /
                                   of_nat (length (valid base_sequence seqs))) amino_acids) *
                of_nat (length (valid base_sequence seqs)) =
                of_nat (differing_canonical base_sequence seqs i) \<and>
              differing_canonical base_sequence seqs i \<le> differing base_sequence seqs i \<and>
              ((\<forall>s \<in> set (valid base_sequence seqs).
                  s ! i = base_sequence ! i \<or> s ! i \<in> set amino_acids) \<longrightarrow>
               differing_canonical base_sequence seqs i = differing base_sequence seqs i) \<and>
              \<bar>sum_list (map decimal_value (tl (table ! i))) *
                   of_nat (length (valid base_sequence seqs)) -
                 of_nat (differing_canonical base_sequence seqs i)\<bar>
                < 20 * of_nat (length (valid base_sequence seqs)) / 1000000)"
proof -
  from calculate_written_table [OF assms] obtain rows seqs where
    inp: "fs input_csv_file = Some rows" and col: "sequence_column rows = Some seqs"
    and t: "0 < length (valid base_sequence seqs)"
    and out: "fs' output_csv_file =
             Some (header # map (table_row base_sequence seqs) [0..<length base_sequence])"
    by blast
  define table where "table = map (table_row base_sequence seqs) [0..<length base_sequence]"
  have exact: "sum_list (map (\<lambda>aa. (of_nat (mismatches base_sequence seqs i aa) :: rat) /
                                   of_nat (length (valid base_sequence seqs))) amino_acids) *
                of_nat (length (valid base_sequence seqs)) =
                of_nat (differing_canonical base_sequence seqs i)" for i
    using t by (simp add: sum_list_quotients sum_mismatches)
  have all_canonical: "differing_canonical base_sequence seqs i = differing base_sequence seqs i"
    if "\<forall>s \<in> set (valid base_sequence seqs). s ! i = base_sequence ! i \<or> s ! i \<in> set amino_acids"
    for i
    by (rule differing_canonical_eq) (use that in auto)
  have "\<forall>i < length base_sequence.
              tl (table ! i) =
                map (\<lambda>aa. format_6f (true_divide (mismatches base_sequence seqs i aa)
                                   (length (valid base_sequence seqs)))) amino_acids \<and>
              sum_list (map (mismatches base_sequence seqs i) amino_acids) =
                differing_canonical base_sequence seqs i \<and>
              sum_list (map (\<lambda>aa. (of_nat (mismatches base_sequence seqs i aa) :: rat) /
                                   of_nat (length (valid base_sequence seqs))) amino_acids) *
                of_nat (length (valid base_sequence seqs)) =
                of_nat (differing_canonical base_sequence seqs i) \<and>
              differing_canonical base_sequence seqs i \<le> differing base_sequence seqs i \<and>
              ((\<forall>s \<in> set (valid base_sequence seqs).
                  s ! i = base_sequence ! i \<or> s ! i \<in> set amino_acids) \<longrightarrow>
               differing_canonical base_sequence seqs i = differing base_sequence seqs i) \<and>
              \<bar>sum_list (map decimal_value (tl (table ! i))) *
                   of_nat (length (valid base_sequence seqs)) -
                 of_nat (differing_canonical base_sequence seqs i)\<bar>
                < 20 * of_nat (length (valid base_sequence seqs)) / 1000000"
  proof (intro allI impI conjI)
    fix i assume i: "i < length base_sequence"
    then have row: "table ! i = table_row base_sequence seqs i" by (simp add: table_def)
    show "tl (table ! i) =
                map (\<lambda>aa. format_6f (true_divide (mismatches base_sequence seqs i aa)
                                   (length (valid base_sequence seqs)))) amino_acids"
      by (simp add: row table_row_def)
    show "sum_list (map (mismatches base_sequence seqs i) amino_acids) =
                differing_canonical base_sequence seqs i"
      by (rule sum_mismatches)
    show "sum_list (map (\<lambda>aa. (of_nat (mismatches base_sequence seqs i aa) :: rat) /
                                   of_nat (length (valid base_sequence seqs))) amino_acids) *
                of_nat (length (valid base_sequence seqs)) =
                of_nat (differing_canonical base_sequence seqs i)"
      by (rule exact)
    show "differing_canonical base_sequence seqs i \<le> differing base_sequence seqs i"
      by (rule differing_canonical_le)
    show "differing_canonical base_sequence seqs i = differing base_sequence seqs i"
      if "\<forall>s \<in> set (valid base_sequence seqs). s ! i = base_sequence ! i \<or> s ! i \<in> set amino_acids"
      using that by (rule all_canonical)
    show "\<bar>sum_list (map decimal_value (tl (table ! i))) *
                   of_nat (length (valid base_sequence seqs)) -
                 of_nat (differing_canonical base_sequence seqs i)\<bar>
                < 20 * of_nat (length (valid base_sequence seqs)) / 1000000"
      unfolding row by (rule cells_sum_close [OF t])
  qed
  moreover have "length table = length base_sequence" by (simp add: table_def)
  ultimately show ?thesis using inp col out unfolding table_def [symmetric] by blast
qed

theorem column_sum_counts_canonical_mismatches_witness:
  "FrequenciesWritten ''out.csv'' \<in>
     set (fst (calculate_mutation_frequencies ''in.csv'' ''A'' ''out.csv''
                 [''in.csv'' \<mapsto> sequence_file [''C'', ''A'', ''A'']])) \<and>
   (\<exists>seqs table.
      sequence_column (sequence_file [''C'', ''A'', ''A'']) = Some seqs \<and>
      snd (calculate_mutation_frequencies ''in.csv'' ''A'' ''out.csv''
             [''in.csv'' \<mapsto> sequence_file [''C'', ''A'', ''A'']]) ''out.csv'' =
        Some (header # table) \<and>
      length table = 1 \<and>
      sum_list (map (mismatches ''A'' seqs 0) amino_acids) = differing_canonical ''A'' seqs 0)"
proof -
  let ?fs = "[''in.csv'' \<mapsto> sequence_file [''C'', ''A'', ''A'']]"
  let ?run = "calculate_mutation_frequencies ''in.csv'' ''A'' ''out.csv'' ?fs"
  have run: "?run = (fst ?run, snd ?run)" by simp
  have "fst ?run = [FrequenciesWritten ''out.csv'']"
    using calculate_on_sequences [of ?fs "''in.csv''"
        "sequence_file [''C'', ''A'', ''A'']" "[''C'', ''A'', ''A'']" "''A''" "''out.csv''"]
    by (simp add: sequence_column_sequence_file valid_def skipped_def)
  then have written: "FrequenciesWritten ''out.csv'' \<in> set (fst ?run)" by simp
  from column_sum_counts_canonical_mismatches [OF run written] written show ?thesis by auto
qed

text \<open>
  Against C2 as stated, twice. With the reference \<open>A\<close> and the sequences \<open>C\<close>, \<open>A\<close>,
  \<open>A\<close> one sequence differs, the written row sums to 0.333333, and three times that is
  0.999999. With the reference \<open>AAAA\<close> and the sequences \<open>AAAA\<close>, \<open>ABAA\<close>, \<open>AABA\<close>,
  \<open>AAAA\<close> one sequence differs at index 1, by the symbol \<open>B\<close>, which has no column:
  the written row for position 2 is all zero.
\<close>

theorem column_sum_is_not_differing_count:
  "snd (calculate_mutation_frequencies ''in.csv'' ''A'' ''out.csv''
          [''in.csv'' \<mapsto> sequence_file [''C'', ''A'', ''A'']]) ''out.csv'' =
     Some [[''Position'', ''A'', ''C'', ''D'', ''E'', ''F'', ''G'', ''H'', ''I'', ''K'', ''L'',
            ''M'', ''N'', ''P'', ''Q'', ''R'', ''S'', ''T'', ''V'', ''W'', ''Y''],
           [''1'', ''0.000000'', ''0.333333'', ''0.000000'', ''0.000000'', ''0.000000'',
            ''0.000000'', ''0.000000'', ''0.000000'', ''0.000000'', ''0.000000'',
            ''0.000000'', ''0.000000'', ''0.000000'', ''0.000000'', ''0.000000'',
            ''0.000000'', ''0.000000'', ''0.000000'', ''0.000000'', ''0.000000'']] \<and>
   length (valid ''A'' [''C'', ''A'', ''A'']) = 3 \<and>
   differing ''A'' [''C'', ''A'', ''A''] 0 = 1 \<and>
   sum_list (map decimal_value
     [''0.000000'', ''0.333333'', ''0.000000'', ''0.000000'', ''0.000000'',
      ''0.000000'', ''0.000000'', ''0.000000'', ''0.000000'', ''0.000000'',
      ''0.000000'', ''0.000000'', ''0.000000'', ''0.000000'', ''0.000000'',
      ''0.000000'', ''0.000000'', ''0.000000'', ''0.000000'', ''0.000000'']) * 3 =
     999999 / 1000000 \<and>
   sum_list (map decimal_value
     [''0.000000'', ''0.333333'', ''0.000000'', ''0.000000'', ''0.000000'',
      ''0.000000'', ''0.000000'', ''0.000000'', ''0.000000'', ''0.000000'',
      ''0.000000'', ''0.000000'', ''0.000000'', ''0.000000'', ''0.000000'',
      ''0.000000'', ''0.000000'', ''0.000000'', ''0.000000'', ''0.000000'']) *
     of_nat (length (valid ''A'' [''C'', ''A'', ''A''])) \<noteq>
     of_nat (differing ''A'' [''C'', ''A'', ''A''] 0) \<and>
   snd (calculate_mutation_frequencies ''in.csv'' ''AAAA'' ''out.csv''
          [''in.csv'' \<mapsto> sequence_file [''AAAA'', ''ABAA'', ''AABA'', ''AAAA'']]) ''out.csv'' =
     Some [[''Position'', ''A'', ''C'', ''D'', ''E'', ''F'', ''G'', ''H'', ''I'', ''K'', ''L'',
            ''M'', ''N'', ''P'', ''Q'', ''R'', ''S'', ''T'', ''V'', ''W'', ''Y''],
           ''1'' # replicate 20 ''0.000000'', ''2'' # replicate 20 ''0.000000'',
           ''3'' # replicate 20 ''0.000000'', ''4'' # replicate 20 ''0.000000''] \<and>
   length (valid ''AAAA'' [''AAAA'', ''ABAA'', ''AABA'', ''AAAA'']) = 4 \<and>
   differing ''AAAA'' [''AAAA'', ''ABAA'', ''AABA'', ''AAAA''] 1 = 1 \<and>
   sum_list (map decimal_value (replicate 20 ''0.000000'')) * 4 = 0 \<and>
   sum_list (map decimal_value (replicate 20 ''0.000000'')) *
     of_nat (length (valid ''AAAA'' [''AAAA'', ''ABAA'', ''AABA'', ''AAAA''])) \<noteq>
     of_nat (differing ''AAAA'' [''AAAA'', ''ABAA'', ''AABA'', ''AAAA''] 1)"
proof -
  let ?s1 = "[''C'', ''A'', ''A'']"
  let ?s2 = "[''AAAA'', ''ABAA'', ''AABA'', ''AAAA'']"
  have total1: "length (valid ''A'' ?s1) = 3" by (simp add: valid_def)
  have counts1: "map (mismatches ''A'' ?s1 0) amino_acids =
                  [0, 1, 0, 0, 0, 0, 0, 0, 0, 0, 0, 0, 0, 0, 0, 0, 0, 0, 0, 0]"
    by (simp add: mismatches_def valid_def amino_acids_def)
  have row1: "table_row ''A'' ?s1 0 =
          [''1'', ''0.000000'', ''0.333333'', ''0.000000'', ''0.000000'', ''0.000000'',
            ''0.000000'', ''0.000000'', ''0.000000'', ''0.000000'', ''0.000000'',
            ''0.000000'', ''0.000000'', ''0.000000'', ''0.000000'', ''0.000000'',
            ''0.000000'', ''0.000000'', ''0.000000'', ''0.000000'', ''0.000000'']"
    unfolding table_row_counts total1 counts1
    by (simp add: format_zero format_third str_nat.simps digit_def)
  have run1: "snd (calculate_mutation_frequencies ''in.csv'' ''A'' ''out.csv''
          [''in.csv'' \<mapsto> sequence_file ?s1]) ''out.csv'' =
        Some (header # map (table_row ''A'' ?s1) [0..<length ''A''])"
    using calculate_on_sequences [of "[''in.csv'' \<mapsto> sequence_file ?s1]" "''in.csv''"
        "sequence_file ?s1" ?s1 "''A''" "''out.csv''"]
    by (simp add: sequence_column_sequence_file valid_def skipped_def)
  have diff1: "differing ''A'' ?s1 0 = 1" by (simp add: differing_def valid_def)
  have sum1: "sum_list (map decimal_value
     [''0.000000'', ''0.333333'', ''0.000000'', ''0.000000'', ''0.000000'',
      ''0.000000'', ''0.000000'', ''0.000000'', ''0.000000'', ''0.000000'',
      ''0.000000'', ''0.000000'', ''0.000000'', ''0.000000'', ''0.000000'',
      ''0.000000'', ''0.000000'', ''0.000000'', ''0.000000'', ''0.000000'']) * 3 =
     999999 / 1000000"
    by (simp add: decimal_value_def nat_of_digits_def digit_value_def)
  have total2: "length (valid ''AAAA'' ?s2) = 4" by (simp add: valid_def)
  have row2: "table_row ''AAAA'' ?s2 i = str_nat (i + 1) # replicate 20 ''0.000000''"
    if "map (mismatches ''AAAA'' ?s2 i) amino_acids = replicate 20 0" for i
    unfolding table_row_counts total2 that by (simp add: format_zero)
  have rows2: "map (table_row ''AAAA'' ?s2) [0..<length ''AAAA''] =
        [''1'' # replicate 20 ''0.000000'', ''2'' # replicate 20 ''0.000000'',
         ''3'' # replicate 20 ''0.000000'', ''4'' # replicate 20 ''0.000000'']"
    unfolding upt_four list.map row2 [OF scenario_counts_0] row2 [OF scenario_counts_1] row2 [OF scenario_counts_2]
      row2 [OF scenario_counts_3]
    by (simp add: str_nat.simps digit_def)
  have run2: "snd (calculate_mutation_frequencies ''in.csv'' ''AAAA'' ''out.csv''
          [''in.csv'' \<mapsto> sequence_file ?s2]) ''out.csv'' =
        Some (header # map (table_row ''AAAA'' ?s2) [0..<length ''AAAA''])"
    using calculate_on_sequences [of "[''in.csv'' \<mapsto> sequence_file ?s2]" "''in.csv''"
        "sequence_file ?s2" ?s2 "''AAAA''" "''out.csv''"]
    by (simp add: sequence_column_sequence_file valid_def skipped_def)
  have diff2: "differing ''AAAA'' ?s2 1 = 1" by (simp add: differing_def valid_def)
  have sum2: "sum_list (map decimal_value (replicate 20 ''0.000000'')) * 4 = 0"
    unfolding replicate_20 by (simp add: decimal_value_def nat_of_digits_def digit_value_def)
  have hdr: "header = [''Position'', ''A'', ''C'', ''D'', ''E'', ''F'', ''G'', ''H'', ''I'', ''K'', ''L'',
            ''M'', ''N'', ''P'', ''Q'', ''R'', ''S'', ''T'', ''V'', ''W'', ''Y'']"
    by (simp add: header_def amino_acids_def)
  have first: "snd (calculate_mutation_frequencies ''in.csv'' ''A'' ''out.csv''
          [''in.csv'' \<mapsto> sequence_file ?s1]) ''out.csv'' =
     Some [[''Position'', ''A'', ''C'', ''D'', ''E'', ''F'', ''G'', ''H'', ''I'', ''K'', ''L'',
            ''M'', ''N'', ''P'', ''Q'', ''R'', ''S'', ''T'', ''V'', ''W'', ''Y''],
           [''1'', ''0.000000'', ''0.333333'', ''0.000000'', ''0.000000'', ''0.000000'',
            ''0.000000'', ''0.000000'', ''0.000000'', ''0.000000'', ''0.000000'',
            ''0.000000'', ''0.000000'', ''0.000000'', ''0.000000'', ''0.000000'',
            ''0.000000'', ''0.000000'', ''0.000000'', ''0.000000'', ''0.000000'']]"
    unfolding run1 hdr by (simp add: row1)
  have second: "snd (calculate_mutation_frequencies ''in.csv'' ''AAAA'' ''out.csv''
          [''in.csv'' \<mapsto> sequence_file ?s2]) ''out.csv'' =
     Some [[''Position'', ''A'', ''C'', ''D'', ''E'', ''F'', ''G'', ''H'', ''I'', ''K'', ''L'',
            ''M'', ''N'', ''P'', ''Q'', ''R'', ''S'', ''T'', ''V'', ''W'', ''Y''],
           ''1'' # replicate 20 ''0.000000'', ''2'' # replicate 20 ''0.000000'',
           ''3'' # replicate 20 ''0.000000'', ''4'' # replicate 20 ''0.000000'']"
    unfolding run2 hdr rows2 by (rule refl)
  have ne1: "sum_list (map decimal_value
     [''0.000000'', ''0.333333'', ''0.000000'', ''0.000000'', ''0.000000'',
      ''0.000000'', ''0.000000'', ''0.000000'', ''0.000000'', ''0.000000'',
      ''0.000000'', ''0.000000'', ''0.000000'', ''0.000000'', ''0.000000'',
      ''0.000000'', ''0.000000'', ''0.000000'', ''0.000000'', ''0.000000'']) *
     of_nat (length (valid ''A'' ?s1)) \<noteq> of_nat (differing ''A'' ?s1 0)"
    unfolding total1 diff1 using sum1 by simp
  have ne2: "sum_list (map decimal_value (replicate 20 ''0.000000'')) *
     of_nat (length (valid ''AAAA'' ?s2)) \<noteq> of_nat (differing ''AAAA'' ?s2 1)"
    unfolding total2 diff2 using sum2 by simp
  from first total1 diff1 sum1 ne1 second total2 diff2 sum2 ne2 show ?thesis by (intro conjI)
qed





text \<open>
  C5. When the first row of the input file does not name a column \<open>sequence\<close>, the
  only effect of the run is the message that the column was not found: no record is
  looked at (no warning is printed) and the file system is left as it was.
\<close>

theorem missing_column_reported:
  assumes "fs input_csv_file = Some rows" and "fieldnames rows = Some names"
    and "''sequence'' \<notin> set names"
  shows "calculate_mutation_frequencies input_csv_file base_sequence output_csv_file fs =
           ([ColumnNotFound input_csv_file], fs)"
  using assms by (simp add: calculate_mutation_frequencies_def calculate_body_def)

theorem missing_column_reported_witness:
  "[''in.csv'' \<mapsto> [[''id'', ''seq''], [''1'', ''AC'']]] ''in.csv'' =
     Some [[''id'', ''seq''], [''1'', ''AC'']] \<and>
   fieldnames [[''id'', ''seq''], [''1'', ''AC'']] = Some [''id'', ''seq''] \<and>
   ''sequence'' \<notin> set [''id'', ''seq''] \<and>
   calculate_mutation_frequencies ''in.csv'' ''AA'' ''out.csv''
     [''in.csv'' \<mapsto> [[''id'', ''seq''], [''1'', ''AC'']]] =
     ([ColumnNotFound ''in.csv''], [''in.csv'' \<mapsto> [[''id'', ''seq''], [''1'', ''AC'']]])"
  using missing_column_reported
    [of "[''in.csv'' \<mapsto> [[''id'', ''seq''], [''1'', ''AC'']]]" "''in.csv''"
        "[[''id'', ''seq''], [''1'', ''AC'']]" "[''id'', ''seq'']" "''AA''" "''out.csv''"]
  by (simp add: fieldnames_def)



text \<open>
  C8. Two runs with the same reference and the same output path, on file systems that
  hold the same input file and may differ anywhere else (in what the output path held
  before, for one), print the same messages and either both write nothing or both write
  the same table.
\<close>

theorem same_input_same_output:
  assumes "fs1 input_csv_file = fs2 input_csv_file"
  shows "\<exists>printed written.
           calculate_mutation_frequencies input_csv_file base_sequence output_csv_file fs1 =
             (printed, case written of None \<Rightarrow> fs1 | Some table \<Rightarrow> fs1(output_csv_file \<mapsto> table)) \<and>
           calculate_mutation_frequencies input_csv_file base_sequence output_csv_file fs2 =
             (printed, case written of None \<Rightarrow> fs2 | Some table \<Rightarrow> fs2(output_csv_file \<mapsto> table))"
proof -
  have effect: "\<exists>e printed written. \<forall>fs. fs input_csv_file = content \<longrightarrow>
          calculate_body input_csv_file base_sequence output_csv_file fs =
            (e, printed, case written of None \<Rightarrow> fs | Some table \<Rightarrow> fs(output_csv_file \<mapsto> table))"
    for content
  proof (cases content)
    case None
    then show ?thesis
      by (intro exI [of _ "Some FileNotFoundError"] exI [of _ "[]"] exI [of _ None])
         (simp add: calculate_body_def)
  next
    case (Some rows)
    show ?thesis
    proof (cases "fieldnames rows")
      case None
      with Some show ?thesis
        by (intro exI [of _ "Some TypeError"] exI [of _ "[]"] exI [of _ None])
           (simp add: calculate_body_def)
    next
      case names: (Some names)
      show ?thesis
      proof (cases "''sequence'' \<in> set names")
        case False
        with Some names show ?thesis
          by (intro exI [of _ None] exI [of _ "[ColumnNotFound input_csv_file]"])
             (simp add: calculate_body_def)
      next
        case True
        obtain r out where cr:
          "count_rows base_sequence (dict_rows rows) empty_tally [] = (r, out)"
          by (cases "count_rows base_sequence (dict_rows rows) empty_tally []") blast
        show ?thesis
        proof (cases r)
          case (Inl e)
          with Some names True cr show ?thesis
            by (intro exI [of _ "Some e"] exI [of _ out] exI [of _ None])
               (simp add: calculate_body_def)
        next
          case (Inr t)
          show ?thesis
          proof (cases "total_sequences t = 0")
            case zero: True
            with Some names True cr Inr show ?thesis
              by (intro exI [of _ None] exI [of _ "out @ [NoValidSequences]"])
                 (simp add: calculate_body_def)
          next
            case False
            with Some names True cr Inr show ?thesis
              by (intro exI [of _ None] exI [of _ "out @ [FrequenciesWritten output_csv_file]"]
                    exI [of _ "Some (frequency_table base_sequence t)"])
                 (simp add: calculate_body_def)
          qed
        qed
      qed
    qed
  qed
  from effect [of "fs1 input_csv_file"] obtain e printed written where
    body: "\<And>fs. fs input_csv_file = fs1 input_csv_file \<Longrightarrow>
          calculate_body input_csv_file base_sequence output_csv_file fs =
            (e, printed, case written of None \<Rightarrow> fs | Some table \<Rightarrow> fs(output_csv_file \<mapsto> table))"
    by blast
  show ?thesis
    using body [of fs1] body [of fs2] assms
    by (cases e) (auto simp: calculate_mutation_frequencies_def)
qed

theorem same_input_same_output_witness:
  "[''in.csv'' \<mapsto> sequence_file [''AC'']] ''in.csv'' =
     [''in.csv'' \<mapsto> sequence_file [''AC''], ''out.csv'' \<mapsto> [[''old'']]] ''in.csv'' \<and>
   (\<exists>printed written.
      calculate_mutation_frequencies ''in.csv'' ''AA'' ''out.csv''
        [''in.csv'' \<mapsto> sequence_file [''AC'']] =
        (printed, case written of None \<Rightarrow> [''in.csv'' \<mapsto> sequence_file [''AC'']]
                  | Some table \<Rightarrow> [''in.csv'' \<mapsto> sequence_file [''AC''], ''out.csv'' \<mapsto> table]) \<and>
      calculate_mutation_frequencies ''in.csv'' ''AA'' ''out.csv''
        [''in.csv'' \<mapsto> sequence_file [''AC''], ''out.csv'' \<mapsto> [[''old'']]] =
        (printed, case written of
                    None \<Rightarrow> [''in.csv'' \<mapsto> sequence_file [''AC''], ''out.csv'' \<mapsto> [[''old'']]]
                  | Some table \<Rightarrow>
                      [''in.csv'' \<mapsto> sequence_file [''AC''], ''out.csv'' \<mapsto> [[''old'']],
                       ''out.csv'' \<mapsto> table]))"
proof (intro conjI)
  show same: "[''in.csv'' \<mapsto> sequence_file [''AC'']] ''in.csv'' =
     [''in.csv'' \<mapsto> sequence_file [''AC''], ''out.csv'' \<mapsto> [[''old'']]] ''in.csv''"
    by simp
  show "\<exists>printed written.
      calculate_mutation_frequencies ''in.csv'' ''AA'' ''out.csv''
        [''in.csv'' \<mapsto> sequence_file [''AC'']] =
        (printed, case written of None \<Rightarrow> [''in.csv'' \<mapsto> sequence_file [''AC'']]
                  | Some table \<Rightarrow> [''in.csv'' \<mapsto> sequence_file [''AC''], ''out.csv'' \<mapsto> table]) \<and>
      calculate_mutation_frequencies ''in.csv'' ''AA'' ''out.csv''
        [''in.csv'' \<mapsto> sequence_file [''AC''], ''out.csv'' \<mapsto> [[''old'']]] =
        (printed, case written of
                    None \<Rightarrow> [''in.csv'' \<mapsto> sequence_file [''AC''], ''out.csv'' \<mapsto> [[''old'']]]
                  | Some table \<Rightarrow>
                      [''in.csv'' \<mapsto> sequence_file [''AC''], ''out.csv'' \<mapsto> [[''old'']],
                       ''out.csv'' \<mapsto> table])"
    by (rule same_input_same_output
          [of "[''in.csv'' \<mapsto> sequence_file [''AC'']]" "''in.csv''"
              "[''in.csv'' \<mapsto> sequence_file [''AC''], ''out.csv'' \<mapsto> [[''old'']]]",
           OF same])
qed

text \<open>
  C9. Take a record of valid length whose symbol at index \<open>i\<close> differs from the
  reference's and is none of the 20 symbols of the alphabet. The loop counts it: the
  count of that symbol at \<open>i\<close> in \<open>mutation_counts\<close> is positive, and the record is one
  of the \<open>total_sequences\<close>. The run writes the table, whose cells are the counts of the
  20 symbols of the alphabet only, over that total; and the table is the one that the
  run writes on a file where this record has the reference's symbol at \<open>i\<close> instead.
\<close>

theorem symbol_outside_alphabet_counted_not_written:
  assumes "fs input_csv_file = Some rows"
    and "sequence_column rows = Some (before @ s # after)"
    and "length s = length base_sequence"
    and "i < length base_sequence"
    and "s ! i \<noteq> base_sequence ! i"
    and "s ! i \<notin> set amino_acids"
    and "fs2 input_csv_file = Some rows2"
    and "sequence_column rows2 = Some (before @ s[i := base_sequence ! i] # after)"
  shows "(\<exists>t out. count_rows base_sequence (dict_rows rows) empty_tally [] = (Inr t, out) \<and>
            0 < get_count (mutation_counts t) i (s ! i) \<and>
            total_sequences t = length (valid base_sequence (before @ s # after))) \<and>
         s \<in> set (valid base_sequence (before @ s # after)) \<and>
         FrequenciesWritten output_csv_file \<in>
           set (fst (calculate_mutation_frequencies input_csv_file base_sequence
                       output_csv_file fs)) \<and>
         snd (calculate_mutation_frequencies input_csv_file base_sequence output_csv_file fs)
           output_csv_file =
           Some (header #
                 map (\<lambda>j. str_nat (j + 1) #
                        map (\<lambda>aa. format_6f
                               (true_divide (mismatches base_sequence (before @ s # after) j aa)
                                  (length (valid base_sequence (before @ s # after)))))
                          amino_acids)
                   [0..<length base_sequence]) \<and>
         snd (calculate_mutation_frequencies input_csv_file base_sequence output_csv_file fs2)
           output_csv_file =
         snd (calculate_mutation_frequencies input_csv_file base_sequence output_csv_file fs)
           output_csv_file"
proof -
  let ?seqs = "before @ s # after"
  let ?seqs2 = "before @ s[i := base_sequence ! i] # after"
  have member: "s \<in> set (valid base_sequence ?seqs)"
    using assms(3) by (simp add: valid_def)
  then have ne: "valid base_sequence ?seqs \<noteq> []" by auto
  have ne2: "valid base_sequence ?seqs2 \<noteq> []"
    using valid_replace [of base_sequence before s i "base_sequence ! i" after] ne by auto
  from count_rows_file [OF assms(2), of base_sequence] obtain t where
    run: "count_rows base_sequence (dict_rows rows) empty_tally [] =
            (Inr t, map IncorrectLength (skipped base_sequence ?seqs))"
    and tot: "total_sequences t = length (valid base_sequence ?seqs)"
    and cnt: "\<And>j x. j < length base_sequence \<Longrightarrow>
                get_count (mutation_counts t) j x = mismatches base_sequence ?seqs j x"
    by blast
  have "0 < mismatches base_sequence ?seqs i (s ! i)"
    unfolding mismatches_def using member assms(5) by (auto simp: filter_empty_conv)
  then have counted: "0 < get_count (mutation_counts t) i (s ! i)"
    by (simp add: cnt [OF assms(4)])
  have r1: "calculate_mutation_frequencies input_csv_file base_sequence output_csv_file fs =
              (map IncorrectLength (skipped base_sequence ?seqs) @ [FrequenciesWritten output_csv_file],
               fs(output_csv_file \<mapsto>
                  header # map (table_row base_sequence ?seqs) [0..<length base_sequence]))"
    using calculate_on_sequences [where fs = fs, OF assms(1, 2), of base_sequence output_csv_file] ne
    by simp
  have r2: "calculate_mutation_frequencies input_csv_file base_sequence output_csv_file fs2 =
              (map IncorrectLength (skipped base_sequence ?seqs2) @ [FrequenciesWritten output_csv_file],
               fs2(output_csv_file \<mapsto>
                  header # map (table_row base_sequence ?seqs2) [0..<length base_sequence]))"
    using calculate_on_sequences [where fs = fs2, OF assms(7, 8), of base_sequence output_csv_file] ne2
    by simp
  have same: "table_row base_sequence ?seqs2 = table_row base_sequence ?seqs"
    by (rule ext) (rule table_row_replace [OF assms(3, 4, 6)])
  have out1: "snd (calculate_mutation_frequencies input_csv_file base_sequence output_csv_file fs)
           output_csv_file =
           Some (header # map (table_row base_sequence ?seqs) [0..<length base_sequence])"
    by (simp add: r1)
  have out2: "snd (calculate_mutation_frequencies input_csv_file base_sequence output_csv_file fs2)
           output_csv_file =
           Some (header # map (table_row base_sequence ?seqs) [0..<length base_sequence])"
    by (simp add: r2 same)
  have written: "FrequenciesWritten output_csv_file \<in>
           set (fst (calculate_mutation_frequencies input_csv_file base_sequence
                       output_csv_file fs))"
    by (simp add: r1)
  have expand: "map (table_row base_sequence ?seqs) [0..<length base_sequence] =
                 map (\<lambda>j. str_nat (j + 1) #
                        map (\<lambda>aa. format_6f
                               (true_divide (mismatches base_sequence ?seqs j aa)
                                  (length (valid base_sequence ?seqs))))
                          amino_acids)
                   [0..<length base_sequence]"
    by (simp add: table_row_def)
  show ?thesis
    unfolding out1 out2 expand [symmetric] using run tot counted member written by blast
qed

theorem symbol_outside_alphabet_counted_not_written_witness:
  "[''in.csv'' \<mapsto> sequence_file [''AAAA'', ''ABAA'']] ''in.csv'' =
     Some (sequence_file [''AAAA'', ''ABAA'']) \<and>
   sequence_column (sequence_file [''AAAA'', ''ABAA'']) = Some ([''AAAA''] @ ''ABAA'' # []) \<and>
   length ''ABAA'' = length ''AAAA'' \<and> (1 :: nat) < length ''AAAA'' \<and>
   ''ABAA'' ! 1 \<noteq> ''AAAA'' ! 1 \<and> ''ABAA'' ! 1 \<notin> set amino_acids \<and>
   [''in.csv'' \<mapsto> sequence_file [''AAAA'', ''AAAA'']] ''in.csv'' =
     Some (sequence_file [''AAAA'', ''AAAA'']) \<and>
   sequence_column (sequence_file [''AAAA'', ''AAAA'']) =
     Some ([''AAAA''] @ ''ABAA''[1 := ''AAAA'' ! 1] # []) \<and>
   snd (calculate_mutation_frequencies ''in.csv'' ''AAAA'' ''out.csv''
          [''in.csv'' \<mapsto> sequence_file [''AAAA'', ''AAAA'']]) ''out.csv'' =
   snd (calculate_mutation_frequencies ''in.csv'' ''AAAA'' ''out.csv''
          [''in.csv'' \<mapsto> sequence_file [''AAAA'', ''ABAA'']]) ''out.csv''"
proof -
  have h1: "[''in.csv'' \<mapsto> sequence_file [''AAAA'', ''ABAA'']] ''in.csv'' =
     Some (sequence_file [''AAAA'', ''ABAA''])" by simp
  have h2: "sequence_column (sequence_file [''AAAA'', ''ABAA'']) = Some ([''AAAA''] @ ''ABAA'' # [])"
    by (simp add: sequence_column_sequence_file)
  have h3: "length ''ABAA'' = length ''AAAA''" by simp
  have h4: "(1 :: nat) < length ''AAAA''" by simp
  have h5: "''ABAA'' ! 1 \<noteq> ''AAAA'' ! 1" by simp
  have h6: "''ABAA'' ! 1 \<notin> set amino_acids" by (simp add: amino_acids_def)
  have h7: "[''in.csv'' \<mapsto> sequence_file [''AAAA'', ''AAAA'']] ''in.csv'' =
     Some (sequence_file [''AAAA'', ''AAAA''])" by simp
  have h8: "sequence_column (sequence_file [''AAAA'', ''AAAA'']) =
     Some ([''AAAA''] @ ''ABAA''[1 := ''AAAA'' ! 1] # [])"
    by (simp add: sequence_column_sequence_file)
  from symbol_outside_alphabet_counted_not_written
    [of "[''in.csv'' \<mapsto> sequence_file [''AAAA'', ''ABAA'']]" "''in.csv''"
        "sequence_file [''AAAA'', ''ABAA'']" "[''AAAA'']" "''ABAA''" "[]" "''AAAA''" 1
        "[''in.csv'' \<mapsto> sequence_file [''AAAA'', ''AAAA'']]"
        "sequence_file [''AAAA'', ''AAAA'']" "''out.csv''",
     OF h1 h2 h3 h4 h5 h6 h7 h8]
  have "snd (calculate_mutation_frequencies ''in.csv'' ''AAAA'' ''out.csv''
          [''in.csv'' \<mapsto> sequence_file [''AAAA'', ''AAAA'']]) ''out.csv'' =
   snd (calculate_mutation_frequencies ''in.csv'' ''AAAA'' ''out.csv''
          [''in.csv'' \<mapsto> sequence_file [''AAAA'', ''ABAA'']]) ''out.csv''"
    by blast
  with h1 h2 h3 h4 h5 h6 h7 h8 show ?thesis by (intro conjI)
qed

text \<open>
  C10 (as amended). After a successful run every written cell denotes a number between 0
  and 1, and at each position the 20 counts sum to at most the number of valid
  sequences, so the exact quotients sum to at most 1. The written cells, each rounded to
  six decimals, sum to at most 1.00001.
\<close>

theorem written_frequencies_bounded:
  assumes "calculate_mutation_frequencies input_csv_file base_sequence output_csv_file fs =
             (printed, fs')"
    and "FrequenciesWritten output_csv_file \<in> set printed"
  shows "\<exists>rows seqs table.
           fs input_csv_file = Some rows \<and> sequence_column rows = Some seqs \<and>
           fs' output_csv_file = Some (header # table) \<and>
           length table = length base_sequence \<and>
           (\<forall>i < length base_sequence.
              (\<forall>cell \<in> set (tl (table ! i)). 0 \<le> decimal_value cell \<and> decimal_value cell \<le> 1) \<and>
              sum_list (map (mismatches base_sequence seqs i) amino_acids)
                \<le> length (valid base_sequence seqs) \<and>
              sum_list (map (\<lambda>aa. (of_nat (mismatches base_sequence seqs i aa) :: rat) /
                                   of_nat (length (valid base_sequence seqs))) amino_acids) \<le> 1 \<and>
              sum_list (map decimal_value (tl (table ! i))) \<le> 1 + 1 / 100000)"
proof -
  from calculate_written_table [OF assms] obtain rows seqs where
    inp: "fs input_csv_file = Some rows" and col: "sequence_column rows = Some seqs"
    and t: "0 < length (valid base_sequence seqs)"
    and out: "fs' output_csv_file =
             Some (header # map (table_row base_sequence seqs) [0..<length base_sequence])"
    by blast
  define table where "table = map (table_row base_sequence seqs) [0..<length base_sequence]"
  have counts: "sum_list (map (mismatches base_sequence seqs i) amino_acids)
                  \<le> length (valid base_sequence seqs)" for i
    unfolding sum_mismatches by (rule order_trans [OF differing_canonical_le differing_le])
  have quotients: "sum_list (map (\<lambda>aa. (of_nat (mismatches base_sequence seqs i aa) :: rat) /
                                   of_nat (length (valid base_sequence seqs))) amino_acids) \<le> 1" for i
  proof -
    have "(of_nat (sum_list (map (mismatches base_sequence seqs i) amino_acids)) :: rat)
            \<le> of_nat (length (valid base_sequence seqs))"
      using counts [of i] by (simp only: of_nat_le_iff)
    then show ?thesis using t by (simp add: sum_list_quotients)
  qed
  have "\<forall>i < length base_sequence.
              (\<forall>cell \<in> set (tl (table ! i)). 0 \<le> decimal_value cell \<and> decimal_value cell \<le> 1) \<and>
              sum_list (map (mismatches base_sequence seqs i) amino_acids)
                \<le> length (valid base_sequence seqs) \<and>
              sum_list (map (\<lambda>aa. (of_nat (mismatches base_sequence seqs i aa) :: rat) /
                                   of_nat (length (valid base_sequence seqs))) amino_acids) \<le> 1 \<and>
              sum_list (map decimal_value (tl (table ! i))) \<le> 1 + 1 / 100000"
    using cells_in_unit_interval [OF t] cells_sum_le [OF t] counts quotients
    by (simp add: table_def)
  moreover have "length table = length base_sequence" by (simp add: table_def)
  ultimately show ?thesis using inp col out unfolding table_def [symmetric] by blast
qed

theorem written_frequencies_bounded_witness:
  "FrequenciesWritten ''out.csv'' \<in>
     set (fst (calculate_mutation_frequencies ''in.csv'' ''A'' ''out.csv''
                 [''in.csv'' \<mapsto> sequence_file [''C'', ''D'', ''E'', ''F'', ''F'', ''F'']])) \<and>
   (\<exists>table.
      snd (calculate_mutation_frequencies ''in.csv'' ''A'' ''out.csv''
             [''in.csv'' \<mapsto> sequence_file [''C'', ''D'', ''E'', ''F'', ''F'', ''F'']]) ''out.csv'' =
        Some (header # table) \<and>
      length table = 1 \<and>
      sum_list (map decimal_value (tl (table ! 0))) \<le> 1 + 1 / 100000)"
proof -
  let ?fs = "[''in.csv'' \<mapsto> sequence_file [''C'', ''D'', ''E'', ''F'', ''F'', ''F'']]"
  let ?run = "calculate_mutation_frequencies ''in.csv'' ''A'' ''out.csv'' ?fs"
  have run: "?run = (fst ?run, snd ?run)" by simp
  have "fst ?run = [FrequenciesWritten ''out.csv'']"
    using calculate_on_sequences [of ?fs "''in.csv''"
        "sequence_file [''C'', ''D'', ''E'', ''F'', ''F'', ''F'']"
        "[''C'', ''D'', ''E'', ''F'', ''F'', ''F'']" "''A''" "''out.csv''"]
    by (simp add: sequence_column_sequence_file valid_def skipped_def)
  then have written: "FrequenciesWritten ''out.csv'' \<in> set (fst ?run)" by simp
  from written_frequencies_bounded [OF run written] written show ?thesis by auto
qed

text \<open>
  Against C10 as stated: with the reference \<open>A\<close> and the six sequences \<open>C\<close>, \<open>D\<close>,
  \<open>E\<close>, \<open>F\<close>, \<open>F\<close>, \<open>F\<close> the written row is \<open>0.166667\<close> three times and
  \<open>0.500000\<close> once, which sum to 1.000001.
\<close>

theorem row_sum_exceeds_one:
  "calculate_mutation_frequencies ''in.csv'' ''A'' ''out.csv''
     [''in.csv'' \<mapsto> sequence_file [''C'', ''D'', ''E'', ''F'', ''F'', ''F'']] =
     ([FrequenciesWritten ''out.csv''],
      [''in.csv'' \<mapsto> sequence_file [''C'', ''D'', ''E'', ''F'', ''F'', ''F''],
       ''out.csv'' \<mapsto>
         [[''Position'', ''A'', ''C'', ''D'', ''E'', ''F'', ''G'', ''H'', ''I'', ''K'', ''L'',
           ''M'', ''N'', ''P'', ''Q'', ''R'', ''S'', ''T'', ''V'', ''W'', ''Y''],
          [''1'', ''0.000000'', ''0.166667'', ''0.166667'', ''0.166667'', ''0.500000'',
           ''0.000000'', ''0.000000'', ''0.000000'', ''0.000000'', ''0.000000'',
           ''0.000000'', ''0.000000'', ''0.000000'', ''0.000000'', ''0.000000'',
           ''0.000000'', ''0.000000'', ''0.000000'', ''0.000000'', ''0.000000'']]]) \<and>
   sum_list (map decimal_value
     [''0.000000'', ''0.166667'', ''0.166667'', ''0.166667'', ''0.500000'',
      ''0.000000'', ''0.000000'', ''0.000000'', ''0.000000'', ''0.000000'',
      ''0.000000'', ''0.000000'', ''0.000000'', ''0.000000'', ''0.000000'',
      ''0.000000'', ''0.000000'', ''0.000000'', ''0.000000'', ''0.000000'']) =
     1000001 / 1000000 \<and>
   \<not> sum_list (map decimal_value
     [''0.000000'', ''0.166667'', ''0.166667'', ''0.166667'', ''0.500000'',
      ''0.000000'', ''0.000000'', ''0.000000'', ''0.000000'', ''0.000000'',
      ''0.000000'', ''0.000000'', ''0.000000'', ''0.000000'', ''0.000000'',
      ''0.000000'', ''0.000000'', ''0.000000'', ''0.000000'', ''0.000000'']) \<le> 1"
proof -
  let ?seqs = "[''C'', ''D'', ''E'', ''F'', ''F'', ''F'']"
  have total: "length (valid ''A'' ?seqs) = 6" by (simp add: valid_def)
  have counts: "map (mismatches ''A'' ?seqs 0) amino_acids =
                  [0, 1, 1, 1, 3, 0, 0, 0, 0, 0, 0, 0, 0, 0, 0, 0, 0, 0, 0, 0]"
    by (simp add: mismatches_def valid_def amino_acids_def)
  have row: "table_row ''A'' ?seqs 0 =
          [''1'', ''0.000000'', ''0.166667'', ''0.166667'', ''0.166667'', ''0.500000'',
           ''0.000000'', ''0.000000'', ''0.000000'', ''0.000000'', ''0.000000'',
           ''0.000000'', ''0.000000'', ''0.000000'', ''0.000000'', ''0.000000'',
           ''0.000000'', ''0.000000'', ''0.000000'', ''0.000000'', ''0.000000'']"
    unfolding table_row_counts total counts
    by (simp add: format_zero format_sixth format_half str_nat.simps digit_def)
  have run: "calculate_mutation_frequencies ''in.csv'' ''A'' ''out.csv''
     [''in.csv'' \<mapsto> sequence_file ?seqs] =
     ([FrequenciesWritten ''out.csv''],
      [''in.csv'' \<mapsto> sequence_file ?seqs,
       ''out.csv'' \<mapsto> header # map (table_row ''A'' ?seqs) [0..<length ''A'']])"
    using calculate_on_sequences [of "[''in.csv'' \<mapsto> sequence_file ?seqs]" "''in.csv''"
        "sequence_file ?seqs" ?seqs "''A''" "''out.csv''"]
    by (simp add: sequence_column_sequence_file valid_def skipped_def)
  have sum: "sum_list (map decimal_value
     [''0.000000'', ''0.166667'', ''0.166667'', ''0.166667'', ''0.500000'',
      ''0.000000'', ''0.000000'', ''0.000000'', ''0.000000'', ''0.000000'',
      ''0.000000'', ''0.000000'', ''0.000000'', ''0.000000'', ''0.000000'',
      ''0.000000'', ''0.000000'', ''0.000000'', ''0.000000'', ''0.000000'']) =
     1000001 / 1000000"
    by (simp add: decimal_value_def nat_of_digits_def digit_value_def)
  show ?thesis
    unfolding sum by (simp add: run row header_def amino_acids_def)
qed

end
